theory Spec2Isabelle
  imports Complex_Main
begin

section \<open>Conventions of the embedding\<close>

text \<open>
  The theory embeds \<^verbatim>\<open>src/pint/templates/lctemplate.py\<close>: the classes
  \<^verbatim>\<open>LCTemplate\<close>, \<^verbatim>\<open>LCBridgeTemplate\<close> and \<^verbatim>\<open>GaussianPrior\<close>.

  \<^item> A numpy array of floats is a \<open>real list\<close>: IEEE doubles are idealised as exact
    reals (no rounding, no overflow).
  \<^item> A float division by zero yields \<open>inf\<close> or \<open>nan\<close> in numpy, which no real number
    represents. An operation of the model that would compute such a value returns
    \<open>Inl NonFiniteResult\<close>, so every \<open>Inr\<close> result is a result the code computes
    with finite floats.
  \<^item> Every exception the source raises is a value \<open>Inl e\<close> of the result type.
  \<^item> Elementwise numpy operations are modelled on arrays of one common length (a length
    mismatch is numpy's broadcasting \<open>ValueError\<close>); broadcasting of length-one arrays
    is not modelled.
\<close>

datatype error =
  ValueError | IndexError | KeyError | TypeError | NotImplementedError
  | AssertionError | ZeroDivisionError | AttributeError | NonFiniteResult

definition ebind :: "error + 'a \<Rightarrow> ('a \<Rightarrow> error + 'b) \<Rightarrow> error + 'b" where
  "ebind m f = (case m of Inl e \<Rightarrow> Inl e | Inr x \<Rightarrow> f x)"

section \<open>numpy helpers\<close>

text \<open>\<^verbatim>\<open>np.mod(x, 1)\<close> on floats: the result has the sign of the divisor, so it is
  the fractional part \<open>x - floor x\<close>.\<close>

definition np_mod1 :: "real \<Rightarrow> real" where
  "np_mod1 x = x - of_int \<lfloor>x\<rfloor>"

text \<open>\<^verbatim>\<open>np.any(m)\<close> for a boolean array.\<close>

definition np_any :: "bool list \<Rightarrow> bool" where
  "np_any m = (True \<in> set m)"

text \<open>The entries of \<open>xs\<close> at the positions where \<open>m\<close> is true, in order.\<close>

definition compress :: "'a list \<Rightarrow> bool list \<Rightarrow> 'a list" where
  "compress xs m = map fst (filter snd (zip xs m))"

text \<open>Boolean-mask indexing \<^verbatim>\<open>a[mask]\<close>: the mask must have the length of the array.\<close>

definition bool_index :: "'a list \<Rightarrow> bool list \<Rightarrow> error + 'a list" where
  "bool_index xs m = (if length m = length xs then Inr (compress xs m) else Inl IndexError)"

text \<open>\<^verbatim>\<open>np.where(c, a, b)\<close>.\<close>

definition np_where :: "bool list \<Rightarrow> 'a list \<Rightarrow> 'a list \<Rightarrow> error + 'a list" where
  "np_where c a b =
     (if length a = length c \<and> length b = length c
      then Inr (map (\<lambda>(ci, ai, bi). if ci then ai else bi) (zip c (zip a b)))
      else Inl ValueError)"

text \<open>Elementwise \<^verbatim>\<open>a - b\<close> and \<^verbatim>\<open>a / b\<close>.\<close>

definition np_sub :: "real list \<Rightarrow> real list \<Rightarrow> error + real list" where
  "np_sub a b =
     (if length a = length b then Inr (map (\<lambda>(x, y). x - y) (zip a b)) else Inl ValueError)"

definition np_div :: "real list \<Rightarrow> real list \<Rightarrow> error + real list" where
  "np_div a b =
     (if length a \<noteq> length b then Inl ValueError
      else if 0 \<in> set b then Inl NonFiniteResult
      else Inr (map (\<lambda>(x, y). x / y) (zip a b)))"

text \<open>Writing \<open>vs\<close>, in order, into the positions of \<open>as\<close> where the mask is true.\<close>

fun scatter :: "'a list \<Rightarrow> bool list \<Rightarrow> 'a list \<Rightarrow> 'a list" where
  "scatter (a # as) (True # ms) (v # vs) = v # scatter as ms vs"
| "scatter (a # as) (False # ms) vs = a # scatter as ms vs"
| "scatter as ms vs = as"

text \<open>Boolean-mask assignment \<^verbatim>\<open>a[mask] = vs\<close>: the mask has the length of the array
  and \<open>vs\<close> has one value for each true entry of the mask.\<close>

definition bool_assign :: "'a list \<Rightarrow> bool list \<Rightarrow> 'a list \<Rightarrow> error + 'a list" where
  "bool_assign as m vs =
     (if length m \<noteq> length as then Inl IndexError
      else if length vs \<noteq> length (filter id m) then Inl ValueError
      else Inr (scatter as m vs))"

section \<open>GaussianPrior\<close>

text \<open>
  \<^verbatim>\<open>
  class GaussianPrior:
      def __init__(self, locations, widths, mod, mask=None):
          self.x0 = np.where(mod, np.mod(locations, 1), locations)
          self.s0 = np.asarray(widths) * 2**0.5
          self.mod = np.asarray(mod)
          if mask is None:
              self.mask = np.asarray([True] * len(locations))
          else:
              self.mask = np.asarray(mask)
              self.x0 = self.x0[self.mask]
              self.s0 = self.s0[self.mask]
              self.mod = self.mod[self.mask]
  \<close>
\<close>

record GaussianPrior =
  gp_x0 :: "real list"
  gp_s0 :: "real list"
  gp_mod :: "bool list"
  gp_mask :: "bool list"

text \<open>The fields carry the prefix \<open>gp_\<close> (\<open>mod\<close> is HOL's remainder), and the
  arguments \<^verbatim>\<open>mod\<close> and \<^verbatim>\<open>mask\<close> of the constructor are \<open>mod'\<close> and \<open>mask'\<close>.\<close>

definition GaussianPrior_init ::
  "real list \<Rightarrow> real list \<Rightarrow> bool list \<Rightarrow> bool list option \<Rightarrow> error + GaussianPrior" where
  "GaussianPrior_init locations widths mod' mask' =
     ebind (np_where mod' (map np_mod1 locations) locations) (\<lambda>x0'.
       let s0' = map (\<lambda>w. w * sqrt 2) widths in
       (case mask' of
          None \<Rightarrow>
            Inr \<lparr>gp_x0 = x0', gp_s0 = s0', gp_mod = mod',
                 gp_mask = replicate (length locations) True\<rparr>
        | Some m \<Rightarrow>
            ebind (bool_index x0' m) (\<lambda>x0''.
            ebind (bool_index s0' m) (\<lambda>s0''.
            ebind (bool_index mod' m) (\<lambda>mod''.
              Inr \<lparr>gp_x0 = x0'', gp_s0 = s0'', gp_mod = mod'', gp_mask = m\<rparr>)))))"

text \<open>
  \<^verbatim>\<open>
      def gradient(self, parameters):
          if not np.any(self.mask):
              return np.zeros_like(parameters)
          parameters = parameters[self.mask]
          parameters = np.where(self.mod, np.mod(parameters, 1), parameters)
          rvals = np.zeros(len(self.mask))
          rvals[self.mask] = 2 * (parameters - self.x0) / self.s0**2
          return rvals
  \<close>
\<close>

definition GaussianPrior_gradient :: "GaussianPrior \<Rightarrow> real list \<Rightarrow> error + real list" where
  "GaussianPrior_gradient self parameters =
     (if \<not> np_any (gp_mask self) then Inr (map (\<lambda>_. 0) parameters)
      else
        ebind (bool_index parameters (gp_mask self)) (\<lambda>ps.
        ebind (np_where (gp_mod self) (map np_mod1 ps) ps) (\<lambda>ps'.
        ebind (np_sub ps' (gp_x0 self)) (\<lambda>d.
        ebind (np_div (map (\<lambda>x. 2 * x) d) (map (\<lambda>s. s ^ 2) (gp_s0 self))) (\<lambda>g.
          bool_assign (replicate (length (gp_mask self)) 0) (gp_mask self) g)))))"

text \<open>
  \<^verbatim>\<open>
      def __call__(self, parameters):
          if not np.any(self.mask):
              return 0
          parameters = parameters[self.mask]
          parameters = np.where(self.mod, np.mod(parameters, 1), parameters)
          return np.sum(((parameters - self.x0) / self.s0) ** 2)
  \<close>
\<close>

definition GaussianPrior_call :: "GaussianPrior \<Rightarrow> real list \<Rightarrow> error + real" where
  "GaussianPrior_call self parameters =
     (if \<not> np_any (gp_mask self) then Inr 0
      else
        ebind (bool_index parameters (gp_mask self)) (\<lambda>ps.
        ebind (np_where (gp_mod self) (map np_mod1 ps) ps) (\<lambda>ps'.
        ebind (np_sub ps' (gp_x0 self)) (\<lambda>d.
        ebind (np_div d (gp_s0 self)) (\<lambda>q.
          Inr (sum_list (map (\<lambda>x. x ^ 2) q)))))))"

text \<open>One entry of \<^verbatim>\<open>np.where(mod, np.mod(x, 1), x)\<close>: wrapped modulo 1 exactly when
  the entry's periodic flag is set.\<close>

definition wrap_if :: "bool \<Rightarrow> real \<Rightarrow> real" where
  "wrap_if periodic x = (if periodic then np_mod1 x else x)"

section \<open>Primitives, the NormMap and the object store\<close>

text \<open>
  The shape primitives (\<^verbatim>\<open>lcprimitives\<close>, \<^verbatim>\<open>lceprimitives\<close>) and the normalisation
  (\<^verbatim>\<open>lcnorm.NormAngles\<close>) are imported by the module and are not part of it. The
  template uses them through the methods below, which the model takes as parameters: a
  record of the operations on the state \<open>'p\<close> of a primitive object and on the state
  \<open>'n\<close> of a NormMap object. An array argument is applied pointwise.
\<close>

record 'p prim_ops =
  prim_call :: "'p \<Rightarrow> real \<Rightarrow> real \<Rightarrow> real"
    \<comment> \<open>\<^verbatim>\<open>prim(phase, log10_ens)\<close>\<close>
  prim_derivative :: "'p \<Rightarrow> real \<Rightarrow> real \<Rightarrow> nat \<Rightarrow> real"
    \<comment> \<open>\<^verbatim>\<open>prim.derivative(phase, log10_ens, order)\<close>\<close>
  prim_integrate :: "'p \<Rightarrow> real \<Rightarrow> real \<Rightarrow> real \<Rightarrow> real"
    \<comment> \<open>\<^verbatim>\<open>prim.integrate(x1, x2, log10_ens)\<close>\<close>
  prim_get_location :: "'p \<Rightarrow> real"
  prim_set_location :: "'p \<Rightarrow> real \<Rightarrow> 'p"
  prim_get_parameters :: "'p \<Rightarrow> bool \<Rightarrow> real list"
    \<comment> \<open>\<^verbatim>\<open>prim.get_parameters(free)\<close>\<close>
  prim_set_parameters :: "'p \<Rightarrow> real list \<Rightarrow> bool \<Rightarrow> bool \<times> 'p"
    \<comment> \<open>\<^verbatim>\<open>prim.set_parameters(p, free)\<close>: the success flag and the primitive afterwards\<close>
  prim_shift_mode :: "'p \<Rightarrow> bool"
  prim_set_p0 :: "'p \<Rightarrow> real \<Rightarrow> 'p"
    \<comment> \<open>the assignment \<^verbatim>\<open>prim.p[0] = ph\<close>\<close>
  convert_primitive :: "'p \<Rightarrow> string \<Rightarrow> 'p"
    \<comment> \<open>\<^verbatim>\<open>convert_primitive(prim, ptype)\<close>, the class \<^verbatim>\<open>ptype\<close> given by its name\<close>

record 'n norm_ops =
  norm_call :: "'n \<Rightarrow> real \<Rightarrow> real list"
    \<comment> \<open>\<^verbatim>\<open>norms(log10_ens)\<close>: the weights at one energy\<close>
  norm_len :: "'n \<Rightarrow> nat"
    \<comment> \<open>\<^verbatim>\<open>len(norms)\<close>\<close>
  norm_set_parameters :: "'n \<Rightarrow> real list \<Rightarrow> bool \<Rightarrow> 'n"
  norm_delete_component :: "'n \<Rightarrow> int \<Rightarrow> error + 'n"
    \<comment> \<open>\<^verbatim>\<open>norms.delete_component(index)\<close>: a new NormMap\<close>
  norm_add_component :: "'n \<Rightarrow> real \<Rightarrow> error + 'n"
    \<comment> \<open>\<^verbatim>\<open>norms.add_component(norm)\<close>: a new NormMap\<close>
  NormAngles :: "real list \<Rightarrow> error + 'n"
    \<comment> \<open>the constructor \<^verbatim>\<open>NormAngles(norms)\<close> from relative amplitudes\<close>

text \<open>
  Python objects are shared by reference: a template holds references to its primitives
  and to its NormMap, and \<^verbatim>\<open>deepcopy\<close> makes a new object. The store maps references to
  object states; \<open>next_ref\<close> is the first reference not yet in use.
\<close>

type_synonym ref = nat

record ('p, 'n) store =
  prim_at :: "ref \<Rightarrow> 'p"
  norm_at :: "ref \<Rightarrow> 'n"
  next_ref :: ref

definition new_prim :: "('p, 'n) store \<Rightarrow> 'p \<Rightarrow> ref \<times> ('p, 'n) store" where
  "new_prim h v =
     (next_ref h, h\<lparr>prim_at := (prim_at h)(next_ref h := v), next_ref := Suc (next_ref h)\<rparr>)"

definition new_norm :: "('p, 'n) store \<Rightarrow> 'n \<Rightarrow> ref \<times> ('p, 'n) store" where
  "new_norm h v =
     (next_ref h, h\<lparr>norm_at := (norm_at h)(next_ref h := v), next_ref := Suc (next_ref h)\<rparr>)"

text \<open>\<^verbatim>\<open>[deepcopy(p) for p in prims]\<close>: one new object for each reference, in order.\<close>

fun deepcopy_all :: "('p, 'n) store \<Rightarrow> ref list \<Rightarrow> ref list \<times> ('p, 'n) store" where
  "deepcopy_all h [] = ([], h)"
| "deepcopy_all h (r # rs) =
     (let (r', h') = new_prim h (prim_at h r); (rs', h'') = deepcopy_all h' rs
      in (r' # rs', h''))"

text \<open>Indexing a Python list or a one-dimensional array with an integer: a negative
  index counts from the end, an index out of range raises \<^verbatim>\<open>IndexError\<close>.\<close>

definition py_index :: "'a list \<Rightarrow> int \<Rightarrow> error + 'a" where
  "py_index xs i =
     (let n = int (length xs); j = (if i < 0 then i + n else i)
      in if 0 \<le> j \<and> j < n then Inr (xs ! nat j) else Inl IndexError)"

section \<open>LCTemplate and LCBridgeTemplate: the objects\<close>

text \<open>
  One record for both classes: \<open>has_bridge\<close> tells the subclass \<^verbatim>\<open>LCBridgeTemplate\<close>,
  whose attributes \<^verbatim>\<open>p1\<close>, \<^verbatim>\<open>p2\<close> are \<open>p1p2\<close>. \<^verbatim>\<open>_cache\<close> is a dictionary from the
  derivative order to the grid; \<^verbatim>\<open>_cache_dirty\<close> is a \<^verbatim>\<open>defaultdict(lambda: True)\<close>: a
  map whose missing keys read as \<open>True\<close>.
\<close>

record LCTemplate =
  primitives :: "ref list"
  norms :: ref
  shift_mode :: bool
  cache :: "nat \<rightharpoonup> real list"
  cache_dirty :: "nat \<rightharpoonup> bool"
  ncache :: int
  interpolation :: int
  has_bridge :: bool
  p1p2 :: "(ref \<times> ref) option"

text \<open>
  \<^verbatim>\<open>
      def mark_cache_dirty(self):
          for k in self._cache_dirty.keys():
              self._cache_dirty[k] = True

      def set_cache_properties(self, ncache=1000, interpolation=1):
          self.ncache = ncache
          self.interpolation = interpolation
          self.mark_cache_dirty()
  \<close>
\<close>

definition mark_cache_dirty :: "LCTemplate \<Rightarrow> LCTemplate" where
  "mark_cache_dirty self = self\<lparr>cache_dirty := map_option (\<lambda>_. True) \<circ> cache_dirty self\<rparr>"

definition set_cache_properties :: "LCTemplate \<Rightarrow> int \<Rightarrow> int \<Rightarrow> LCTemplate" where
  "set_cache_properties self ncache' interpolation' =
     mark_cache_dirty (self\<lparr>ncache := ncache', interpolation := interpolation'\<rparr>)"

text \<open>Reading \<^verbatim>\<open>self._cache_dirty[order]\<close>: a missing key reads as \<open>True\<close> (and the
  \<^verbatim>\<open>defaultdict\<close> stores it).\<close>

definition is_dirty :: "LCTemplate \<Rightarrow> nat \<Rightarrow> bool" where
  "is_dirty self order = (case cache_dirty self order of None \<Rightarrow> True | Some b \<Rightarrow> b)"

definition read_dirty :: "LCTemplate \<Rightarrow> nat \<Rightarrow> bool \<times> LCTemplate" where
  "read_dirty self order =
     (is_dirty self order,
      case cache_dirty self order of
        None \<Rightarrow> self\<lparr>cache_dirty := (cache_dirty self)(order \<mapsto> True)\<rparr>
      | Some b \<Rightarrow> self)"

text \<open>
  \<^verbatim>\<open>
      def _sanity_checks(self):                       # LCTemplate
          if len(self.primitives) != len(self.norms):
              raise ValueError("Must provide a normalization for each component.")

      def _sanity_checks(self):                       # LCBridgeTemplate
          if len(self.primitives) != len(self.norms) - 1:
              raise ValueError("Require n_primitive+1 norm components.")
  \<close>
\<close>

definition sanity_checks :: "'n norm_ops \<Rightarrow> ('p, 'n) store \<Rightarrow> LCTemplate \<Rightarrow> error + unit" where
  "sanity_checks nops h self =
     (let np = int (length (primitives self));
          nn = int (norm_len nops (norm_at h (norms self)))
      in if has_bridge self
         then (if np \<noteq> nn - 1 then Inl ValueError else Inr ())
         else (if np \<noteq> nn then Inl ValueError else Inr ()))"

text \<open>
  The argument \<^verbatim>\<open>norms\<close> of the constructors: omitted, a NormMap object (it has the
  attribute \<^verbatim>\<open>_make_p\<close>), or a tuple of relative amplitudes.
\<close>

datatype norms_arg = NormsNone | NormsObject ref | NormsTuple "real list"

text \<open>
  \<^verbatim>\<open>
      def __init__(self, primitives, norms=None):
          self.primitives = primitives
          self.shift_mode = np.any([p.shift_mode for p in self.primitives])
          if norms is None:
              norms = np.ones(len(primitives)) / len(primitives)
          if hasattr(norms,'_make_p'):
              self.norms = norms
          else:
              self.norms = NormAngles(norms)
          self._sanity_checks()
          self._cache = defaultdict(None)
          self._cache_dirty = defaultdict(lambda: True)
          self.set_cache_properties()
  \<close>
  \<open>init_common\<close> is this body, run for the class given by \<open>bridge\<close> (the subclass
  reaches it through \<^verbatim>\<open>super().__init__\<close>, with its own \<^verbatim>\<open>_sanity_checks\<close>).
\<close>

definition init_common ::
  "'p prim_ops \<Rightarrow> 'n norm_ops \<Rightarrow> bool \<Rightarrow> ('p, 'n) store \<Rightarrow> ref list \<Rightarrow> norms_arg
     \<Rightarrow> error + (LCTemplate \<times> ('p, 'n) store)" where
  "init_common pops nops bridge h prims norms' =
     ebind
       (case norms' of
          NormsObject r \<Rightarrow> Inr (r, h)
        | NormsTuple v \<Rightarrow> ebind (NormAngles nops v) (\<lambda>nm. Inr (new_norm h nm))
        | NormsNone \<Rightarrow>
            ebind (NormAngles nops (replicate (length prims) (1 / real (length prims))))
              (\<lambda>nm. Inr (new_norm h nm)))
       (\<lambda>(r, h').
          let self = \<lparr>primitives = prims, norms = r,
                shift_mode = list_ex (\<lambda>p. prim_shift_mode pops (prim_at h' p)) prims,
                cache = Map.empty, cache_dirty = Map.empty, ncache = 0, interpolation = 0,
                has_bridge = bridge, p1p2 = None\<rparr>
          in ebind (sanity_checks nops h' self)
               (\<lambda>_. Inr (set_cache_properties self 1000 1, h')))"

definition LCTemplate_init ::
  "'p prim_ops \<Rightarrow> 'n norm_ops \<Rightarrow> ('p, 'n) store \<Rightarrow> ref list \<Rightarrow> norms_arg
     \<Rightarrow> error + (LCTemplate \<times> ('p, 'n) store)" where
  "LCTemplate_init pops nops h prims norms' = init_common pops nops False h prims norms'"

text \<open>
  \<^verbatim>\<open>
      def __init__(self, primitives, norms=None):     # LCBridgeTemplate
          if norms is None:
              norms = np.ones(len(primitives) + 1) / (len(primitives + 1))
          super().__init__(primitives, norms)
          self.p1 = self.primitives[-2]
          self.p2 = self.primitives[-1]
  \<close>
  In the default, \<^verbatim>\<open>primitives + 1\<close> adds an integer to a list, which raises
  \<^verbatim>\<open>TypeError\<close> for every list.
\<close>

definition LCBridgeTemplate_init ::
  "'p prim_ops \<Rightarrow> 'n norm_ops \<Rightarrow> ('p, 'n) store \<Rightarrow> ref list \<Rightarrow> norms_arg
     \<Rightarrow> error + (LCTemplate \<times> ('p, 'n) store)" where
  "LCBridgeTemplate_init pops nops h prims norms' =
     (case norms' of
        NormsNone \<Rightarrow> Inl TypeError
      | _ \<Rightarrow>
          ebind (init_common pops nops True h prims norms') (\<lambda>(self, h').
          ebind (py_index (primitives self) (- 2)) (\<lambda>r1.
          ebind (py_index (primitives self) (- 1)) (\<lambda>r2.
            Inr (self\<lparr>p1p2 := Some (r1, r2)\<rparr>, h')))))"

section \<open>Evaluation of a template\<close>

text \<open>A scale factor of \<^verbatim>\<open>_get_scales\<close> is a float or, for the two peaks of a bridge,
  an array with one entry for each phase. \<open>scaled n vals\<close> is the product \<^verbatim>\<open>n * vals\<close>.\<close>

datatype scale = Scalar real | Array "real list"

definition scaled :: "scale \<Rightarrow> real list \<Rightarrow> real list" where
  "scaled n vals =
     (case n of
        Scalar c \<Rightarrow> map (\<lambda>v. c * v) vals
      | Array a \<Rightarrow> map (\<lambda>(x, v). x * v) (zip a vals))"

text \<open>\<^verbatim>\<open>prim(phases, log10_ens)\<close> and \<^verbatim>\<open>prim.derivative(phases, log10_ens, order)\<close> for
  the primitive object at a reference.\<close>

definition prim_eval ::
  "'p prim_ops \<Rightarrow> ('p, 'n) store \<Rightarrow> ref \<Rightarrow> real list \<Rightarrow> real \<Rightarrow> real list" where
  "prim_eval pops h r phases log10_ens =
     map (\<lambda>ph. prim_call pops (prim_at h r) ph log10_ens) phases"

definition prim_deriv ::
  "'p prim_ops \<Rightarrow> ('p, 'n) store \<Rightarrow> ref \<Rightarrow> real list \<Rightarrow> real \<Rightarrow> nat \<Rightarrow> real list" where
  "prim_deriv pops h r phases log10_ens order =
     map (\<lambda>ph. prim_derivative pops (prim_at h r) ph log10_ens order) phases"

text \<open>A float division: a zero divisor gives a non-finite float.\<close>

definition fdiv :: "real \<Rightarrow> real \<Rightarrow> error + real" where
  "fdiv x y = (if y = 0 then Inl NonFiniteResult else Inr (x / y))"

text \<open>An array divided by a float, \<^verbatim>\<open>rvals / norm\<close>.\<close>

definition div_scalar :: "real list \<Rightarrow> real \<Rightarrow> error + real list" where
  "div_scalar xs c =
     (if c = 0 \<and> xs \<noteq> [] then Inl NonFiniteResult else Inr (map (\<lambda>x. x / c) xs))"

text \<open>
  \<^verbatim>\<open>
      def _get_scales(self, phases, log10_ens=3):     # LCTemplate
          rvals = np.zeros_like(phases)
          norms = self.norms(log10_ens)
          return rvals, norms, norms.sum(axis=0)
  \<close>
\<close>

definition LCTemplate_get_scales ::
  "'n norm_ops \<Rightarrow> ('p, 'n) store \<Rightarrow> LCTemplate \<Rightarrow> real list \<Rightarrow> real
     \<Rightarrow> real list \<times> scale list \<times> real" where
  "LCTemplate_get_scales nops h self phases log10_ens =
     (let nrm = norm_call nops (norm_at h (norms self)) log10_ens
      in (map (\<lambda>_. 0) phases, map Scalar nrm, sum_list nrm))"

text \<open>
  \<^verbatim>\<open>
      def _get_scales(self, phases, log10_ens=3):     # LCBridgeTemplate
          all_norms = self.norms(log10_ens)
          nped, norms = all_norms[0], all_norms[1:]
          n1, n2 = norms[-2:]
          p1, p2 = self.p1, self.p2
          l1, l2 = p1.get_location(), p2.get_location()
          delta = (l2 - l1) + (l2 < l1)
          f11, f12, f21, f22 = (p1(l1, log10_ens), p1(l2, log10_ens),
                                p2(l1, log10_ens), p2(l2, log10_ens))
          d = f11 * f22 - f12 * f21
          if l2 > l1:
              i1 = p1.integrate(l1, l2, log10_ens)
              i2 = p2.integrate(l1, l2, log10_ens)
          else:
              i1 = 1 - p1.integrate(l2, l1, log10_ens)
              i2 = 1 - p2.integrate(l2, l1, log10_ens)
          k = nped * (1.0 - (i1 * (f22 - f21) + i2 * (f11 - f12)) / (d * delta)) ** -1
          dn1 = k / (delta * d) * (f21 - f22)
          dn2 = k / (delta * d) * (f12 - f11)
          if l2 > l1:
              mask = (phases >= l1) & (phases <= l2)
          else:
              mask = (phases >= l1) | (phases <= l2)
          rvals = k / delta * mask  # pedestal
          norm_list = [norms[i] for i in range(0, len(norms) - 2)] + [
              n1 + dn1 * mask, n2 + dn2 * mask]
          return rvals, norm_list, all_norms.sum(axis=0)
  \<close>
  The model has the body in three parts: the quantities read from the two peaks
  (\<open>bridge_geometry\<close>), the three coefficients (\<open>bridge_solve\<close>), and the arrays built from
  them with the mask.
\<close>

record bridge_geometry =
  bg_l1 :: real
  bg_l2 :: real
  bg_delta :: real
  bg_f11 :: real
  bg_f12 :: real
  bg_f21 :: real
  bg_f22 :: real
  bg_d :: real
  bg_i1 :: real
  bg_i2 :: real

definition bridge_geometry :: "'p prim_ops \<Rightarrow> 'p \<Rightarrow> 'p \<Rightarrow> real \<Rightarrow> bridge_geometry" where
  "bridge_geometry pops p1 p2 log10_ens =
     (let l1 = prim_get_location pops p1; l2 = prim_get_location pops p2;
          f11 = prim_call pops p1 l1 log10_ens; f12 = prim_call pops p1 l2 log10_ens;
          f21 = prim_call pops p2 l1 log10_ens; f22 = prim_call pops p2 l2 log10_ens
      in \<lparr>bg_l1 = l1, bg_l2 = l2,
           bg_delta = (l2 - l1) + (if l2 < l1 then 1 else 0),
           bg_f11 = f11, bg_f12 = f12, bg_f21 = f21, bg_f22 = f22,
           bg_d = f11 * f22 - f12 * f21,
           bg_i1 = (if l2 > l1 then prim_integrate pops p1 l1 l2 log10_ens
                    else 1 - prim_integrate pops p1 l2 l1 log10_ens),
           bg_i2 = (if l2 > l1 then prim_integrate pops p2 l1 l2 log10_ens
                    else 1 - prim_integrate pops p2 l2 l1 log10_ens)\<rparr>)"

text \<open>The coefficients \<open>(k, dn1, dn2, k / delta)\<close> for the pedestal weight \<open>nped\<close>.\<close>

definition bridge_solve :: "bridge_geometry \<Rightarrow> real \<Rightarrow> error + (real \<times> real \<times> real \<times> real)" where
  "bridge_solve g nped =
     ebind (fdiv (bg_i1 g * (bg_f22 g - bg_f21 g) + bg_i2 g * (bg_f11 g - bg_f12 g))
              (bg_d g * bg_delta g)) (\<lambda>q.
     ebind (fdiv 1 (1 - q)) (\<lambda>inv.
       let k = nped * inv in
       ebind (fdiv k (bg_delta g * bg_d g)) (\<lambda>c.
       ebind (fdiv k (bg_delta g)) (\<lambda>ped.
         Inr (k, c * (bg_f21 g - bg_f22 g), c * (bg_f12 g - bg_f11 g), ped)))))"

definition bridge_mask :: "bridge_geometry \<Rightarrow> real \<Rightarrow> bool" where
  "bridge_mask g ph =
     (if bg_l2 g > bg_l1 g then bg_l1 g \<le> ph \<and> ph \<le> bg_l2 g
      else bg_l1 g \<le> ph \<or> ph \<le> bg_l2 g)"

definition LCBridgeTemplate_get_scales ::
  "'p prim_ops \<Rightarrow> 'n norm_ops \<Rightarrow> ('p, 'n) store \<Rightarrow> LCTemplate \<Rightarrow> real list \<Rightarrow> real
     \<Rightarrow> error + (real list \<times> scale list \<times> real)" where
  "LCBridgeTemplate_get_scales pops nops h self phases log10_ens =
     (let all_norms = norm_call nops (norm_at h (norms self)) log10_ens in
      ebind (py_index all_norms 0) (\<lambda>nped.
        let nrm = drop 1 all_norms in
        if length nrm < 2 then Inl ValueError
        else
          let n1 = nrm ! (length nrm - 2); n2 = nrm ! (length nrm - 1) in
          (case p1p2 self of
             None \<Rightarrow> Inl AttributeError
           | Some (r1, r2) \<Rightarrow>
               let g = bridge_geometry pops (prim_at h r1) (prim_at h r2) log10_ens in
               ebind (bridge_solve g nped) (\<lambda>(k, dn1, dn2, ped).
                 let mask = map (bridge_mask g) phases
                 in Inr (map (\<lambda>b. ped * of_bool b) mask,
                         map Scalar (take (length nrm - 2) nrm)
                           @ [Array (map (\<lambda>b. n1 + dn1 * of_bool b) mask),
                              Array (map (\<lambda>b. n2 + dn2 * of_bool b) mask)],
                         sum_list all_norms)))))"

definition get_scales ::
  "'p prim_ops \<Rightarrow> 'n norm_ops \<Rightarrow> ('p, 'n) store \<Rightarrow> LCTemplate \<Rightarrow> real list \<Rightarrow> real
     \<Rightarrow> error + (real list \<times> scale list \<times> real)" where
  "get_scales pops nops h self phases log10_ens =
     (if has_bridge self then LCBridgeTemplate_get_scales pops nops h self phases log10_ens
      else Inr (LCTemplate_get_scales nops h self phases log10_ens))"

text \<open>
  \<^verbatim>\<open>
      def __call__(self, phases, log10_ens=3, suppress_bg=False, use_cache=False):
          if use_cache:
              return self.eval_cache(phases, order=0)
          rvals, norms, norm = self._get_scales(phases, log10_ens)
          for n, prim in zip(norms, self.primitives):
              rvals += n * prim(phases, log10_ens=log10_ens)
          if suppress_bg:
              return rvals / norm
          return (1.0 - norm) + rvals
  \<close>
  \<open>call_direct\<close> is the body after the test of \<^verbatim>\<open>use_cache\<close>; \<open>add_arrays\<close> is \<^verbatim>\<open>+=\<close>.
\<close>

definition add_arrays :: "real list \<Rightarrow> real list \<Rightarrow> real list" where
  "add_arrays a b = map (\<lambda>(x, y). x + y) (zip a b)"

definition call_direct ::
  "'p prim_ops \<Rightarrow> 'n norm_ops \<Rightarrow> ('p, 'n) store \<Rightarrow> LCTemplate \<Rightarrow> real list \<Rightarrow> real \<Rightarrow> bool
     \<Rightarrow> error + real list" where
  "call_direct pops nops h self phases log10_ens suppress_bg =
     ebind (get_scales pops nops h self phases log10_ens) (\<lambda>(rvals, nrm, norm).
       let rvals' =
             foldl (\<lambda>rv (n, prim). add_arrays rv (scaled n (prim_eval pops h prim phases log10_ens)))
               rvals (zip nrm (primitives self))
       in if suppress_bg then div_scalar rvals' norm
          else Inr (map (\<lambda>x. (1 - norm) + x) rvals'))"

text \<open>
  \<^verbatim>\<open>
      def derivative(self, phases, log10_ens=3, order=1, use_cache=False):
          if use_cache:
              return self.eval_cache(phases, order=order)
          rvals = np.zeros_like(phases)
          norms = self.norms(log10_ens=log10_ens)
          for n, prim in zip(norms, self.primitives):
              rvals += n * prim.derivative(phases, log10_ens=log10_ens, order=order)
          return rvals
  \<close>
\<close>

definition derivative_direct ::
  "'p prim_ops \<Rightarrow> 'n norm_ops \<Rightarrow> ('p, 'n) store \<Rightarrow> LCTemplate \<Rightarrow> real list \<Rightarrow> real \<Rightarrow> nat
     \<Rightarrow> real list" where
  "derivative_direct pops nops h self phases log10_ens order =
     foldl (\<lambda>rv (n, prim).
         add_arrays rv (map (\<lambda>v. n * v) (prim_deriv pops h prim phases log10_ens order)))
       (map (\<lambda>_. 0) phases)
       (zip (norm_call nops (norm_at h (norms self)) log10_ens) (primitives self))"

text \<open>
  \<^verbatim>\<open>
      def single_component(self, index, phases, log10_ens=3, add_bg=False):   # LCTemplate
          n = self.norms(log10_ens=log10_ens)
          rvals = self.primitives[index](phases, log10_ens=log10_ens) * n[index]
          if add_bg:
              return rvals + n.sum(axis=0)
          return rvals
  \<close>
\<close>

definition LCTemplate_single_component ::
  "'p prim_ops \<Rightarrow> 'n norm_ops \<Rightarrow> ('p, 'n) store \<Rightarrow> LCTemplate \<Rightarrow> int \<Rightarrow> real list \<Rightarrow> real
     \<Rightarrow> bool \<Rightarrow> error + real list" where
  "LCTemplate_single_component pops nops h self index phases log10_ens add_bg =
     (let n = norm_call nops (norm_at h (norms self)) log10_ens in
      ebind (py_index (primitives self) index) (\<lambda>prim.
      ebind (py_index n index) (\<lambda>ni.
        let rvals = map (\<lambda>v. v * ni) (prim_eval pops h prim phases log10_ens)
        in if add_bg then Inr (map (\<lambda>x. x + sum_list n) rvals) else Inr rvals)))"

text \<open>
  \<^verbatim>\<open>
      def single_component(self, index, phases, log10_ens=3):                 # LCBridgeTemplate
          rvals, norms, norm = self._get_scales(phases, log10_ens)
          if index < len(self.primitives):
              np.add(rvals, norms[index] * self.primitives[index](phases, log10_ens), rvals)
          return rvals
  \<close>
\<close>

definition LCBridgeTemplate_single_component ::
  "'p prim_ops \<Rightarrow> 'n norm_ops \<Rightarrow> ('p, 'n) store \<Rightarrow> LCTemplate \<Rightarrow> int \<Rightarrow> real list \<Rightarrow> real
     \<Rightarrow> error + real list" where
  "LCBridgeTemplate_single_component pops nops h self index phases log10_ens =
     ebind (LCBridgeTemplate_get_scales pops nops h self phases log10_ens) (\<lambda>(rvals, nrm, norm).
       if index < int (length (primitives self))
       then ebind (py_index nrm index) (\<lambda>n.
            ebind (py_index (primitives self) index) (\<lambda>prim.
              Inr (add_arrays rvals (scaled n (prim_eval pops h prim phases log10_ens)))))
       else Inr rvals)"

section \<open>The evaluation cache\<close>

text \<open>\<^verbatim>\<open>np.linspace(0, 1, num)\<close>: \<open>num\<close> evenly spaced points of \<open>[0, 1]\<close>, both ends
  included; a negative \<open>num\<close> raises \<^verbatim>\<open>ValueError\<close>.\<close>

definition linspace01 :: "int \<Rightarrow> error + real list" where
  "linspace01 num =
     (if num < 0 then Inl ValueError
      else if num = 1 then Inr [0]
      else Inr (map (\<lambda>i. real i / real (nat num - 1)) [0..<nat num]))"

text \<open>
  \<^verbatim>\<open>
      def set_cache(self, order=0):
          ncache = self.ncache
          if order == 0:
              t = self(np.linspace(0, 1, ncache + 1))
              self._cache[0] = t
              self._cache_dirty[0] = False
          else:
              t = self.derivative(np.linspace(0, 1, ncache + 1), order=order)
              self._cache[order] = t
              self._cache_dirty[order] = False
  \<close>
  A method that changes the template returns its result (or the exception) and the
  template afterwards.
\<close>

definition set_cache ::
  "'p prim_ops \<Rightarrow> 'n norm_ops \<Rightarrow> ('p, 'n) store \<Rightarrow> LCTemplate \<Rightarrow> nat
     \<Rightarrow> (error + unit) \<times> LCTemplate" where
  "set_cache pops nops h self order =
     (case linspace01 (ncache self + 1) of
        Inl e \<Rightarrow> (Inl e, self)
      | Inr grid \<Rightarrow>
          (case (if order = 0 then call_direct pops nops h self grid 3 False
                 else Inr (derivative_direct pops nops h self grid 3 order)) of
             Inl e \<Rightarrow> (Inl e, self)
           | Inr t \<Rightarrow>
               (Inr (), self\<lparr>cache := (cache self)(order \<mapsto> t),
                             cache_dirty := (cache_dirty self)(order \<mapsto> False)\<rparr>)))"

text \<open>
  \<^verbatim>\<open>
      def get_cache(self, order=0):
          ncache = self.ncache
          if self._cache_dirty[order]:
              self.set_cache(order=order)
          if len(self._cache[order]) != ncache + 1:
              self.set_cache(order=order)
          return self._cache[order]
  \<close>
\<close>

definition get_cache ::
  "'p prim_ops \<Rightarrow> 'n norm_ops \<Rightarrow> ('p, 'n) store \<Rightarrow> LCTemplate \<Rightarrow> nat
     \<Rightarrow> (error + real list) \<times> LCTemplate" where
  "get_cache pops nops h self order =
     (let (dirty, self1) = read_dirty self order;
          (r1, self2) = (if dirty then set_cache pops nops h self1 order else (Inr (), self1))
      in case r1 of
           Inl e \<Rightarrow> (Inl e, self2)
         | Inr _ \<Rightarrow>
             (case cache self2 order of
                None \<Rightarrow> (Inl KeyError, self2)
              | Some c \<Rightarrow>
                  let (r2, self3) =
                        (if int (length c) \<noteq> ncache self + 1 then set_cache pops nops h self2 order
                         else (Inr (), self2))
                  in case r2 of
                       Inl e \<Rightarrow> (Inl e, self3)
                     | Inr _ \<Rightarrow>
                         (case cache self3 order of
                            None \<Rightarrow> (Inl KeyError, self3)
                          | Some c' \<Rightarrow> (Inr c', self3))))"

text \<open>
  The phases given to \<^verbatim>\<open>eval_cache\<close> are floats, among them \<open>nan\<close> and the infinities,
  for which the method has a branch of its own.
\<close>

datatype fl = Fin real | PInf | NInf | NaN

definition isnan :: "fl \<Rightarrow> bool" where
  "isnan x = (case x of NaN \<Rightarrow> True | _ \<Rightarrow> False)"

text \<open>
  The conversion of a float to \<^verbatim>\<open>int\<close> (\<^verbatim>\<open>np.array(..., dtype=int)\<close>, \<^verbatim>\<open>astype(int)\<close>)
  truncates towards zero. For \<open>nan\<close>, an infinity or a value outside the 64-bit range the
  result is the value numpy gives on x86-64, the smallest 64-bit integer.
\<close>

definition int64_min :: int where
  "int64_min = - (2 ^ 63)"

definition float_to_int :: "real \<Rightarrow> int" where
  "float_to_int x =
     (let t = (if 0 \<le> x then \<lfloor>x\<rfloor> else \<lceil>x\<rceil>)
      in if - (2 ^ 63) \<le> t \<and> t < 2 ^ 63 then t else int64_min)"

text \<open>\<^verbatim>\<open>np.array(phases * ncache + 0.5, dtype=int)\<close> and \<^verbatim>\<open>(phases * ncache).astype(int)\<close>,
  for one phase: a non-finite phase gives a non-finite product.\<close>

definition nearest_index :: "int \<Rightarrow> fl \<Rightarrow> int" where
  "nearest_index ncache' ph =
     (case ph of Fin x \<Rightarrow> float_to_int (x * of_int ncache' + 1 / 2) | _ \<Rightarrow> int64_min)"

definition lower_index :: "int \<Rightarrow> fl \<Rightarrow> int" where
  "lower_index ncache' ph =
     (case ph of Fin x \<Rightarrow> float_to_int (x * of_int ncache') | _ \<Rightarrow> int64_min)"

text \<open>Indexing an array with an array of integers, \<^verbatim>\<open>cached_values[indices]\<close>: one
  index out of range raises \<^verbatim>\<open>IndexError\<close>.\<close>

definition in_range :: "'a list \<Rightarrow> int \<Rightarrow> bool" where
  "in_range xs i = (- int (length xs) \<le> i \<and> i < int (length xs))"

definition at_index :: "'a list \<Rightarrow> int \<Rightarrow> 'a" where
  "at_index xs i = xs ! nat (if i < 0 then i + int (length xs) else i)"

definition take_indices :: "'a list \<Rightarrow> int list \<Rightarrow> error + 'a list" where
  "take_indices xs idx =
     (if list_all (in_range xs) idx then Inr (map (at_index xs) idx) else Inl IndexError)"

text \<open>The decimal digits of a count, as \<^verbatim>\<open>"%d"\<close> prints it.\<close>

fun show_nat :: "nat \<Rightarrow> string" where
  "show_nat n =
     (if n < 10 then [char_of (48 + n)]
      else show_nat (n div 10) @ [char_of (48 + n mod 10)])"

text \<open>
  \<^verbatim>\<open>
          if interpolation == 0:
              indices = np.array(phases * ncache + 0.5, dtype=int)
              try:
                  return cached_values[indices]
              except IndexError as e:
                  nanphases = np.sum(np.isnan(phases))
                  if nanphases > 0:
                      print("%d phases were NaN!" % (nanphases))
                      indices[np.isnan(phases)] = 0
                      return cached_values[indices]
                  else:
                      raise e
  \<close>
  The result and the lines printed.
\<close>

definition nearest_lookup :: "real list \<Rightarrow> int \<Rightarrow> fl list \<Rightarrow> (error + real list) \<times> string list" where
  "nearest_lookup cached_values ncache' phases =
     (let indices = map (nearest_index ncache') phases
      in case take_indices cached_values indices of
           Inr vals \<Rightarrow> (Inr vals, [])
         | Inl e \<Rightarrow>
             (let nanphases = length (filter isnan phases)
              in if nanphases > 0
                 then (take_indices cached_values
                         (map (\<lambda>(i, ph). if isnan ph then 0 else i) (zip indices phases)),
                       [show_nat nanphases @ '' phases were NaN!''])
                 else (Inl e, [])))"

text \<open>
  \<^verbatim>\<open>
          if interpolation == 1:
              indices = phases * ncache
              indices_lo = indices.astype(int)
              dhi = indices - indices_lo
              dlo = 1.0 - dhi
              return cached_values[indices_lo] * dlo + cached_values[indices_lo + 1] * dhi
  \<close>
  A non-finite phase has the index \<open>int64_min\<close>, so the first lookup raises; the
  arithmetic is on finite phases only.
\<close>

definition linear_lookup :: "real list \<Rightarrow> int \<Rightarrow> fl list \<Rightarrow> error + real list" where
  "linear_lookup cached_values ncache' phases =
     (let indices_lo = map (lower_index ncache') phases in
      ebind (take_indices cached_values indices_lo) (\<lambda>los.
      ebind (take_indices cached_values (map (\<lambda>i. i + 1) indices_lo)) (\<lambda>his.
        Inr (map (\<lambda>(ph, lo, vlo, vhi).
                    (case ph of
                       Fin x \<Rightarrow>
                         let dhi = x * of_int ncache' - of_int lo in vlo * (1 - dhi) + vhi * dhi
                     | _ \<Rightarrow> 0))
               (zip phases (zip indices_lo (zip los his)))))))"

text \<open>
  \<^verbatim>\<open>
      def eval_cache(self, phases, order=0):
          ncache = self.ncache
          interpolation = self.interpolation
          cached_values = self.get_cache(order=order)
          if interpolation == 0: ...
          if interpolation == 1: ...
          else:
              raise NotImplementedError("interpolation=%d not implemented" % (interpolation))
  \<close>
  The result, the lines printed and the template afterwards.
\<close>

definition eval_cache ::
  "'p prim_ops \<Rightarrow> 'n norm_ops \<Rightarrow> ('p, 'n) store \<Rightarrow> LCTemplate \<Rightarrow> fl list \<Rightarrow> nat
     \<Rightarrow> (error + real list) \<times> string list \<times> LCTemplate" where
  "eval_cache pops nops h self phases order =
     (case get_cache pops nops h self order of
        (Inl e, self') \<Rightarrow> (Inl e, [], self')
      | (Inr cached_values, self') \<Rightarrow>
          if interpolation self = 0
          then (let (r, out) = nearest_lookup cached_values (ncache self) phases
                in (r, out, self'))
          else if interpolation self = 1
          then (linear_lookup cached_values (ncache self) phases, [], self')
          else (Inl NotImplementedError, [], self'))"

text \<open>\<^verbatim>\<open>__call__\<close> and \<^verbatim>\<open>derivative\<close> with their argument \<^verbatim>\<open>use_cache\<close>; the phases of a
  call are finite floats.\<close>

definition LCTemplate_call ::
  "'p prim_ops \<Rightarrow> 'n norm_ops \<Rightarrow> ('p, 'n) store \<Rightarrow> LCTemplate \<Rightarrow> real list \<Rightarrow> real \<Rightarrow> bool
     \<Rightarrow> bool \<Rightarrow> (error + real list) \<times> string list \<times> LCTemplate" where
  "LCTemplate_call pops nops h self phases log10_ens suppress_bg use_cache =
     (if use_cache then eval_cache pops nops h self (map Fin phases) 0
      else (call_direct pops nops h self phases log10_ens suppress_bg, [], self))"

definition LCTemplate_derivative ::
  "'p prim_ops \<Rightarrow> 'n norm_ops \<Rightarrow> ('p, 'n) store \<Rightarrow> LCTemplate \<Rightarrow> real list \<Rightarrow> real \<Rightarrow> nat
     \<Rightarrow> bool \<Rightarrow> (error + real list) \<times> string list \<times> LCTemplate" where
  "LCTemplate_derivative pops nops h self phases log10_ens order use_cache =
     (if use_cache then eval_cache pops nops h self (map Fin phases) order
      else (Inr (derivative_direct pops nops h self phases log10_ens order), [], self))"

section \<open>Operations that change a template\<close>

text \<open>
  \<^verbatim>\<open>
      def set_parameters(self, p, free=True):
          start = 0
          params_ok = True
          for prim in self.primitives:
              n = len(prim.get_parameters(free=free))
              params_ok = (
                  prim.set_parameters(p[start : start + n], free=free) and params_ok
              )
              start += n
          self.norms.set_parameters(p[start:], free)
          self.mark_cache_dirty()
          return params_ok
  \<close>
  \<open>set_primitive_parameters\<close> is the loop, from the store, \<open>start\<close> and \<open>params_ok\<close>
  reached so far. The methods below return their result, the template afterwards and the
  store afterwards.
\<close>

fun set_primitive_parameters ::
  "'p prim_ops \<Rightarrow> ('p, 'n) store \<Rightarrow> ref list \<Rightarrow> real list \<Rightarrow> bool \<Rightarrow> nat \<Rightarrow> bool
     \<Rightarrow> ('p, 'n) store \<times> nat \<times> bool" where
  "set_primitive_parameters pops h [] p free start params_ok = (h, start, params_ok)"
| "set_primitive_parameters pops h (prim # rest) p free start params_ok =
     (let n = length (prim_get_parameters pops (prim_at h prim) free);
          (ok, prim') = prim_set_parameters pops (prim_at h prim) (take n (drop start p)) free
      in set_primitive_parameters pops (h\<lparr>prim_at := (prim_at h)(prim := prim')\<rparr>) rest p free
           (start + n) (ok \<and> params_ok))"

definition set_parameters ::
  "'p prim_ops \<Rightarrow> 'n norm_ops \<Rightarrow> ('p, 'n) store \<Rightarrow> LCTemplate \<Rightarrow> real list \<Rightarrow> bool
     \<Rightarrow> bool \<times> LCTemplate \<times> ('p, 'n) store" where
  "set_parameters pops nops h self p free =
     (let (h', start, params_ok) =
            set_primitive_parameters pops h (primitives self) p free 0 True;
          nm = norm_set_parameters nops (norm_at h' (norms self)) (drop start p) free
      in (params_ok, mark_cache_dirty self, h'\<lparr>norm_at := (norm_at h')(norms self := nm)\<rparr>))"

text \<open>
  \<^verbatim>\<open>
          for prim in self.primitives:
              new_location = (prim.get_location() + shift) % 1
              prim.set_location(new_location)
  \<close>
  the loop that ends \<^verbatim>\<open>set_overall_phase\<close> and \<^verbatim>\<open>align_peak\<close>.
\<close>

fun shift_locations ::
  "'p prim_ops \<Rightarrow> ('p, 'n) store \<Rightarrow> ref list \<Rightarrow> real \<Rightarrow> ('p, 'n) store" where
  "shift_locations pops h [] shift = h"
| "shift_locations pops h (prim # rest) shift =
     (let new_location = np_mod1 (prim_get_location pops (prim_at h prim) + shift)
      in shift_locations pops
           (h\<lparr>prim_at := (prim_at h)(prim := prim_set_location pops (prim_at h prim) new_location)\<rparr>)
           rest shift)"

text \<open>
  \<^verbatim>\<open>
      def set_overall_phase(self, ph):
          self.mark_cache_dirty()
          if self.shift_mode:
              self.primitives[0].p[0] = ph
              return
          shift = ph - self.primitives[0].get_location()
          for prim in self.primitives: ...
  \<close>
\<close>

definition set_overall_phase ::
  "'p prim_ops \<Rightarrow> ('p, 'n) store \<Rightarrow> LCTemplate \<Rightarrow> real
     \<Rightarrow> (error + unit) \<times> LCTemplate \<times> ('p, 'n) store" where
  "set_overall_phase pops h self ph =
     (let self' = mark_cache_dirty self in
      case primitives self of
        [] \<Rightarrow> (Inl IndexError, self', h)
      | prim0 # _ \<Rightarrow>
          if shift_mode self
          then (Inr (), self', h\<lparr>prim_at := (prim_at h)(prim0 := prim_set_p0 pops (prim_at h prim0) ph)\<rparr>)
          else (Inr (), self',
                shift_locations pops h (primitives self)
                  (ph - prim_get_location pops (prim_at h prim0))))"

text \<open>
  \<^verbatim>\<open>
      def align_peak(self, phi=0, dphi=0.001):
          self.mark_cache_dirty()
          nbin = int(1.0 / dphi) + 1
          shift = -1.0 * self.primitives[0].get_location()
          log.info("Shifting profile peak by {0}".format(shift))
          for prim in self.primitives: ...
  \<close>
\<close>

definition align_peak ::
  "'p prim_ops \<Rightarrow> ('p, 'n) store \<Rightarrow> LCTemplate \<Rightarrow> real \<Rightarrow> real
     \<Rightarrow> (error + unit) \<times> LCTemplate \<times> ('p, 'n) store" where
  "align_peak pops h self phi dphi =
     (let self' = mark_cache_dirty self in
      if dphi = 0 then (Inl ZeroDivisionError, self', h)
      else
        case primitives self of
          [] \<Rightarrow> (Inl IndexError, self', h)
        | prim0 # _ \<Rightarrow>
            (Inr (), self',
             shift_locations pops h (primitives self)
               (- 1 * prim_get_location pops (prim_at h prim0))))"

text \<open>
  \<^verbatim>\<open>
      def swap_primitive(self, index, ptype=LCLorentzian):
          self.primitives[index] = convert_primitive(self.primitives[index], ptype)
  \<close>
  The converted primitive is a new object.
\<close>

definition swap_primitive ::
  "'p prim_ops \<Rightarrow> ('p, 'n) store \<Rightarrow> LCTemplate \<Rightarrow> int \<Rightarrow> string
     \<Rightarrow> (error + unit) \<times> LCTemplate \<times> ('p, 'n) store" where
  "swap_primitive pops h self index ptype =
     (case py_index (primitives self) index of
        Inl e \<Rightarrow> (Inl e, self, h)
      | Inr old \<Rightarrow>
          let (new, h') = new_prim h (convert_primitive pops (prim_at h old) ptype);
              j = nat (if index < 0 then index + int (length (primitives self)) else index)
          in (Inr (), self\<lparr>primitives := (primitives self)[j := new]\<rparr>, h'))"

text \<open>
  \<^verbatim>\<open>
      def delete_primitive(self, index, inplace=False):
          norms, prims = self.norms, self.primitives
          if len(prims) == 1:
              raise ValueError("Template only has a single primitive.")
          if index < 0:
              index += len(prims)
          newprims = [deepcopy(p) for ip,p in enumerate(prims) if not index==ip]
          newnorms = self.norms.delete_component(index)
          if inplace:
              self.primitives = newprims
              self.norms = newnorms
          else:
              return LCTemplate(newprims, newnorms)
  \<close>
  The result is the template returned, or \<open>None\<close>.
\<close>

definition delete_primitive ::
  "'p prim_ops \<Rightarrow> 'n norm_ops \<Rightarrow> ('p, 'n) store \<Rightarrow> LCTemplate \<Rightarrow> int \<Rightarrow> bool
     \<Rightarrow> (error + LCTemplate option) \<times> LCTemplate \<times> ('p, 'n) store" where
  "delete_primitive pops nops h self index inplace =
     (let prims = primitives self in
      if length prims = 1 then (Inl ValueError, self, h)
      else
        let index' = (if index < 0 then index + int (length prims) else index);
            (newprims, h1) =
              deepcopy_all h
                (map snd (filter (\<lambda>(ip, p). index' \<noteq> int ip) (enumerate 0 prims)))
        in case norm_delete_component nops (norm_at h1 (norms self)) index' of
             Inl e \<Rightarrow> (Inl e, self, h1)
           | Inr nm \<Rightarrow>
               let (newnorms, h2) = new_norm h1 nm in
               if inplace
               then (Inr None, self\<lparr>primitives := newprims, norms := newnorms\<rparr>, h2)
               else (case LCTemplate_init pops nops h2 newprims (NormsObject newnorms) of
                       Inl e \<Rightarrow> (Inl e, self, h2)
                     | Inr (t, h3) \<Rightarrow> (Inr (Some t), self, h3)))"

text \<open>
  \<^verbatim>\<open>
      def add_primitive(self, prim, norm=0.1, inplace=False):
          norms, prims = self.norms, self.primitives
          nprims = [deepcopy(prims[i]) for i in range(len(prims))] + [prim]
          nnorms = self.norms.add_component(norm)
          if inplace:
              self.norms = nnorms
              self.primitives = nprims
          else:
              return LCTemplate(nprims, nnorms)
  \<close>
\<close>

definition add_primitive ::
  "'p prim_ops \<Rightarrow> 'n norm_ops \<Rightarrow> ('p, 'n) store \<Rightarrow> LCTemplate \<Rightarrow> ref \<Rightarrow> real \<Rightarrow> bool
     \<Rightarrow> (error + LCTemplate option) \<times> LCTemplate \<times> ('p, 'n) store" where
  "add_primitive pops nops h self prim norm' inplace =
     (let (copies, h1) = deepcopy_all h (primitives self);
          nprims = copies @ [prim]
      in case norm_add_component nops (norm_at h1 (norms self)) norm' of
           Inl e \<Rightarrow> (Inl e, self, h1)
         | Inr nm \<Rightarrow>
             let (nnorms, h2) = new_norm h1 nm in
             if inplace
             then (Inr None, self\<lparr>norms := nnorms, primitives := nprims\<rparr>, h2)
             else (case LCTemplate_init pops nops h2 nprims (NormsObject nnorms) of
                     Inl e \<Rightarrow> (Inl e, self, h2)
                   | Inr (t, h3) \<Rightarrow> (Inr (Some t), self, h3)))"

section \<open>Random variates\<close>



text \<open>
  \<^verbatim>\<open>self.norms(log10_ens)\<close> for an array of energies is the array of shape
  \<open>nnorm \<times> n\<close> whose column \<open>j\<close> holds the weights at the energy \<open>j\<close>; the model has it
  as the list of its rows. \<open>sum_axis0\<close> is \<^verbatim>\<open>.sum(axis=0)\<close> and \<open>cumsum_axis0\<close> is
  \<^verbatim>\<open>np.cumsum(..., axis=0)\<close> of an array with \<open>n\<close> columns.
\<close>

definition norms_matrix :: "'n norm_ops \<Rightarrow> 'n \<Rightarrow> real list \<Rightarrow> real list list" where
  "norms_matrix nops nm ens =
     map (\<lambda>i. map (\<lambda>e. norm_call nops nm e ! i) ens) [0..<norm_len nops nm]"

definition sum_axis0 :: "real list list \<Rightarrow> nat \<Rightarrow> real list" where
  "sum_axis0 rows n = map (\<lambda>j. sum_list (map (\<lambda>r. r ! j) rows)) [0..<n]"

fun cumsum_from :: "real list \<Rightarrow> real list list \<Rightarrow> real list list" where
  "cumsum_from acc [] = []"
| "cumsum_from acc (r # rs) = add_arrays acc r # cumsum_from (add_arrays acc r) rs"







section \<open>One implementation of the primitive and NormMap methods\<close>

text \<open>
  The theorems below hold for every implementation \<open>pops\<close>, \<open>nops\<close> of the methods. To
  evaluate the model at concrete inputs the theory has one implementation of each: a
  primitive with the quadratic profile
  \<open>1 + slope * (phase - 1/2) + curv * ((phase - 1/2)\<^sup>2 - 1/12)\<close>, which integrates to 1
  over \<open>[0, 1]\<close> and whose \<^verbatim>\<open>set_parameters\<close> writes the parameters
  \<open>[slope, curv, location]\<close> and reports whether the slope is within its bounds; and a
  NormMap that stores its weights, at every energy the same.
\<close>

record poly =
  poly_slope :: real
  poly_curv :: real
  poly_loc :: real

definition poly_ops :: "poly prim_ops" where
  "poly_ops =
     \<lparr>prim_call =
        (\<lambda>p ph e. 1 + poly_slope p * (ph - 1 / 2) + poly_curv p * ((ph - 1 / 2) ^ 2 - 1 / 12)),
      prim_derivative =
        (\<lambda>p ph e order.
           if order = 1 then poly_slope p + 2 * poly_curv p * (ph - 1 / 2)
           else if order = 2 then 2 * poly_curv p else 0),
      prim_integrate =
        (\<lambda>p x1 x2 e.
           (x2 - x1) + poly_slope p * ((x2 ^ 2 - x1 ^ 2) / 2 - (x2 - x1) / 2)
           + poly_curv p * (((x2 - 1 / 2) ^ 3 - (x1 - 1 / 2) ^ 3) / 3 - (x2 - x1) / 12)),
      prim_get_location = poly_loc,
      prim_set_location = (\<lambda>p x. p\<lparr>poly_loc := x\<rparr>),
      prim_get_parameters = (\<lambda>p free. [poly_slope p, poly_curv p, poly_loc p]),
      prim_set_parameters =
        (\<lambda>p v free.
           case v of
             [s, c, l] \<Rightarrow> (\<bar>s\<bar> \<le> 2, p\<lparr>poly_slope := s, poly_curv := c, poly_loc := l\<rparr>)
           | _ \<Rightarrow> (False, p)),
      prim_shift_mode = (\<lambda>p. False),
      prim_set_p0 = (\<lambda>p x. p\<lparr>poly_slope := x\<rparr>),
      convert_primitive = (\<lambda>p ptype. p)\<rparr>"

definition weights_ops :: "real list norm_ops" where
  "weights_ops =
     \<lparr>norm_call = (\<lambda>n e. n),
      norm_len = length,
      norm_set_parameters = (\<lambda>n p free. if length p = length n then p else n),
      norm_delete_component =
        (\<lambda>n i. if 0 \<le> i \<and> i < int (length n)
               then Inr (take (nat i) n @ drop (Suc (nat i)) n)
               else Inl IndexError),
      norm_add_component = (\<lambda>n w. Inr (map (\<lambda>x. x * (1 - w)) n @ [w])),
      NormAngles = (\<lambda>v. Inr v)\<rparr>"

text \<open>A store that holds the primitives \<open>ps\<close> at the references \<open>0, 1, ...\<close> and the
  weights \<open>w\<close> at every NormMap reference.\<close>

definition poly_store :: "poly list \<Rightarrow> real list \<Rightarrow> (poly, real list) store" where
  "poly_store ps w =
     \<lparr>prim_at = (\<lambda>r. if r < length ps then ps ! r
                      else \<lparr>poly_slope = 0, poly_curv = 0, poly_loc = 0\<rparr>),
      norm_at = (\<lambda>r. w),
      next_ref = Suc (length ps)\<rparr>"

text \<open>The templates and stores at which the theorems are evaluated: two linear
  profiles, of slope \<open>1\<close> and \<open>-1\<close>, with the weights \<open>1/4\<close> and \<open>1/2\<close>.\<close>

definition two_ramps :: LCTemplate where
  "two_ramps =
     \<lparr>primitives = [0, 1], norms = 2, shift_mode = False, cache = Map.empty,
      cache_dirty = Map.empty, ncache = 1000, interpolation = 1, has_bridge = False,
      p1p2 = None\<rparr>"

definition two_ramps_store :: "(poly, real list) store" where
  "two_ramps_store =
     poly_store [\<lparr>poly_slope = 1, poly_curv = 0, poly_loc = 1/4\<rparr>,
                 \<lparr>poly_slope = - 1, poly_curv = 0, poly_loc = 3/4\<rparr>] [1/4, 1/2]"

text \<open>The store of the two ramps with a third, curved primitive that belongs to no
  template.\<close>

definition three_polys_store :: "(poly, real list) store" where
  "three_polys_store =
     poly_store [\<lparr>poly_slope = 1, poly_curv = 0, poly_loc = 1/4\<rparr>,
                 \<lparr>poly_slope = - 1, poly_curv = 0, poly_loc = 3/4\<rparr>,
                 \<lparr>poly_slope = 0, poly_curv = 12, poly_loc = 1/2\<rparr>] [1/4, 1/2]"


text \<open>A bridge template of two primitives with the weights \<open>1/6\<close> (pedestal), \<open>1/4\<close>
  and \<open>1/4\<close>; a store in which its second peak is curved, and one in which both peaks
  are linear.\<close>

definition bridge_pair :: LCTemplate where
  "bridge_pair =
     \<lparr>primitives = [0, 1], norms = 2, shift_mode = False, cache = Map.empty,
      cache_dirty = Map.empty, ncache = 1000, interpolation = 1, has_bridge = True,
      p1p2 = Some (0, 1)\<rparr>"

definition bridge_store :: "(poly, real list) store" where
  "bridge_store =
     poly_store [\<lparr>poly_slope = 1, poly_curv = 0, poly_loc = 1/4\<rparr>,
                 \<lparr>poly_slope = 0, poly_curv = 12, poly_loc = 3/4\<rparr>] [1/6, 1/4, 1/4]"

definition bridge_ramps_store :: "(poly, real list) store" where
  "bridge_ramps_store =
     poly_store [\<lparr>poly_slope = 1, poly_curv = 0, poly_loc = 1/4\<rparr>,
                 \<lparr>poly_slope = - 1, poly_curv = 0, poly_loc = 3/4\<rparr>] [1/6, 1/4, 1/4]"

text \<open>The template of two ramps with \<open>ncache = 2\<close> after its cache of order 0 was
  filled, and the same template after its first primitive was deleted in place.\<close>

definition two_ramps_cached :: LCTemplate where
  "two_ramps_cached =
     \<lparr>primitives = [0, 1], norms = 2, shift_mode = False, cache = [0 \<mapsto> [9/8, 1, 7/8]],
      cache_dirty = [0 \<mapsto> False], ncache = 2, interpolation = 1, has_bridge = False,
      p1p2 = None\<rparr>"

definition one_ramp_stale :: LCTemplate where
  "one_ramp_stale = two_ramps_cached\<lparr>primitives := [3], norms := 4\<rparr>"

text \<open>The same template with the cache filled and nearest-point interpolation.\<close>

definition two_ramps_nearest :: LCTemplate where
  "two_ramps_nearest = two_ramps_cached\<lparr>interpolation := 0\<rparr>"



section \<open>Notions of the specification\<close>

text \<open>The weighted sum of the specification, \<open>sum_i w_i * primitive_i(phase, energy)\<close>
  over the components of a template, at one phase.\<close>

definition weighted_sum ::
  "'p prim_ops \<Rightarrow> ('p, 'n) store \<Rightarrow> real list \<Rightarrow> ref list \<Rightarrow> real \<Rightarrow> real \<Rightarrow> real" where
  "weighted_sum pops h w prims log10_ens ph =
     (\<Sum>i<length prims. w ! i * prim_call pops (prim_at h (prims ! i)) ph log10_ens)"

text \<open>The value of a bridge template outside the interval of the bridge: every primitive
  with its own weight \<open>n_i\<close> (the weights after the pedestal's), no pedestal, plus the
  background \<open>1 - sum(all weights)\<close>.\<close>

definition outside_value ::
  "'p prim_ops \<Rightarrow> 'n norm_ops \<Rightarrow> ('p, 'n) store \<Rightarrow> LCTemplate \<Rightarrow> real \<Rightarrow> real \<Rightarrow> real" where
  "outside_value pops nops h self log10_ens ph =
     (let all_norms = norm_call nops (norm_at h (norms self)) log10_ens
      in weighted_sum pops h (drop 1 all_norms) (primitives self) log10_ens ph
         + (1 - sum_list all_norms))"

text \<open>The number whose inverse the bridge solver takes for the pedestal coefficient
  \<open>k\<close>.\<close>

definition pedestal_denominator :: "bridge_geometry \<Rightarrow> real" where
  "pedestal_denominator g =
     1 - (bg_i1 g * (bg_f22 g - bg_f21 g) + bg_i2 g * (bg_f11 g - bg_f12 g))
           / (bg_d g * bg_delta g)"

text \<open>The slice of the flattened parameter vector that belongs to the primitive number
  \<open>i\<close>: it starts where the parameters of the primitives before it end.\<close>

definition param_start :: "'p prim_ops \<Rightarrow> ('p, 'n) store \<Rightarrow> ref list \<Rightarrow> bool \<Rightarrow> nat \<Rightarrow> nat" where
  "param_start pops h prims free i =
     sum_list (map (\<lambda>r. length (prim_get_parameters pops (prim_at h r) free)) (take i prims))"

definition param_slice ::
  "'p prim_ops \<Rightarrow> ('p, 'n) store \<Rightarrow> ref list \<Rightarrow> bool \<Rightarrow> real list \<Rightarrow> nat \<Rightarrow> real list" where
  "param_slice pops h prims free p i =
     take (length (prim_get_parameters pops (prim_at h (prims ! i)) free))
       (drop (param_start pops h prims free i) p)"

text \<open>The store \<open>h'\<close> extends \<open>h\<close>: every object of \<open>h\<close> is in \<open>h'\<close> with the state
  it has in \<open>h\<close>. The references of a template are in the store.\<close>

definition store_extends :: "('p, 'n) store \<Rightarrow> ('p, 'n) store \<Rightarrow> bool" where
  "store_extends h h' =
     (next_ref h \<le> next_ref h'
      \<and> (\<forall>r<next_ref h. prim_at h' r = prim_at h r \<and> norm_at h' r = norm_at h r))"

definition refs_in_store :: "LCTemplate \<Rightarrow> ('p, 'n) store \<Rightarrow> bool" where
  "refs_in_store self h =
     (list_all (\<lambda>r. r < next_ref h) (primitives self) \<and> norms self < next_ref h
      \<and> (case p1p2 self of None \<Rightarrow> True | Some (r1, r2) \<Rightarrow> r1 < next_ref h \<and> r2 < next_ref h))"

text \<open>The assignment of the specification: the smallest index \<open>i\<close> in \<open>[m, k)\<close> whose
  threshold \<open>t i\<close> exceeds the draw \<open>q\<close>, and \<open>k\<close>, the bucket of the background, when there
  is none.\<close>

definition first_above :: "real \<Rightarrow> (nat \<Rightarrow> real) \<Rightarrow> nat \<Rightarrow> nat \<Rightarrow> nat" where
  "first_above q t m k = (case find (\<lambda>i. q < t i) [m..<k] of Some i \<Rightarrow> i | None \<Rightarrow> k)"


section \<open>Helper lemmas\<close>

lemma ebind_Inr [simp]: "ebind (Inr x) f = f x"
  by (simp add: ebind_def)

lemma ebind_Inl [simp]: "ebind (Inl e) f = Inl e"
  by (simp add: ebind_def)

subsection \<open>Masks\<close>

lemma compress_Nil [simp]: "compress [] m = []" "compress xs [] = []"
  by (simp_all add: compress_def)

lemma compress_Cons [simp]:
  "compress (x # xs) (b # m) = (if b then x # compress xs m else compress xs m)"
  by (simp add: compress_def)

lemma compress_map: "compress (map f xs) m = map f (compress xs m)"
proof (induction xs arbitrary: m)
  case Nil then show ?case by simp
next
  case (Cons x xs) then show ?case by (cases m) simp_all
qed

lemma compress_zip:
  "zip (compress xs m) (compress ys m) = compress (zip xs ys) m"
proof (induction xs arbitrary: ys m)
  case Nil then show ?case by simp
next
  case (Cons x xs)
  show ?case
  proof (cases ys)
    case Nil then show ?thesis by simp
  next
    case (Cons y ys')
    with Cons.IH show ?thesis by (cases m) simp_all
  qed
qed

lemma length_compress:
  "length m = length xs \<Longrightarrow> length (compress xs m) = length (filter id m)"
proof (induction xs arbitrary: m)
  case Nil then show ?case by simp
next
  case (Cons x xs) then show ?case by (cases m) simp_all
qed

lemma compress_all_True: "compress xs (replicate (length xs) True) = xs"
  by (induction xs) simp_all

lemma scatter_compress:
  "length m = length base \<Longrightarrow> length vs = length base \<Longrightarrow>
   scatter base m (compress vs m) = map (\<lambda>(b, v, e). if e then v else b) (zip base (zip vs m))"
proof (induction base arbitrary: m vs)
  case Nil then show ?case by simp
next
  case (Cons a base)
  then obtain e m' v vs' where "m = e # m'" "vs = v # vs'"
    by (cases m; cases vs) auto
  with Cons show ?case by (cases e) simp_all
qed

lemma set_compress: "length m = length xs \<Longrightarrow> x \<in> set (compress xs m) \<longleftrightarrow> (\<exists>i<length xs. m ! i \<and> xs ! i = x)"
proof (induction xs arbitrary: m)
  case Nil then show ?case by simp
next
  case (Cons a xs)
  then obtain e m' where m: "m = e # m'" by (cases m) auto
  with Cons show ?case
    by (auto simp: less_Suc_eq_0_disj nth_Cons')
qed

section \<open>GaussianPrior.gradient\<close>

lemma compress_replicate_True: "length xs = n \<Longrightarrow> compress xs (replicate n True) = xs"
  using compress_all_True [of xs] by simp

lemma GaussianPrior_init_fields:
  assumes "GaussianPrior_init locations widths mod' mask' = Inr gp"
    and "length widths = length locations"
  shows "length mod' = length locations \<and> length (gp_mask gp) = length locations
    \<and> gp_x0 gp = compress (map (\<lambda>(c, l). wrap_if c l) (zip mod' locations)) (gp_mask gp)
    \<and> gp_s0 gp = compress (map (\<lambda>w. w * sqrt 2) widths) (gp_mask gp)
    \<and> gp_mod gp = compress mod' (gp_mask gp)"
proof -
  from assms(1) have len: "length mod' = length locations"
    by (auto simp: GaussianPrior_init_def np_where_def split: if_splits)
  have w: "map (\<lambda>(ci, ai, bi). if ci then ai else bi) (zip mod' (zip (map np_mod1 locations) locations))
      = map (\<lambda>(c, l). wrap_if c l) (zip mod' locations)"
    using len by (intro nth_equalityI) (simp_all add: wrap_if_def)
  show ?thesis
  proof (cases mask')
    case None
    with assms len w show ?thesis
      by (auto simp: GaussianPrior_init_def np_where_def Let_def compress_replicate_True)
  next
    case (Some m)
    with assms len w show ?thesis
      by (auto simp: GaussianPrior_init_def np_where_def Let_def bool_index_def
          split: if_splits)
  qed
qed

lemma gradient_arith: "(2 * a - 2 * b) / (w\<^sup>2 * 2) = (a - b) / (w::real)\<^sup>2"
  using mult_divide_mult_cancel_left [of 2 "a - b" "w^2"] by (simp add: algebra_simps)

lemma np_any_iff: "np_any m \<longleftrightarrow> (\<exists>i<length m. m ! i)"
  by (auto simp: np_any_def in_set_conv_nth)


text \<open>
  Claim C5, as amended. Let the prior be constructed from \<open>locations\<close>, \<open>widths\<close>,
  the periodic flags \<open>mod'\<close> and an optional enable mask, all of one length, and let the
  width of every enabled entry be nonzero. Then \<open>gradient\<close> returns, for every
  parameter vector of that length, the value
  \<open>(wrapped parameter - wrapped target) / width\<^sup>2\<close> on each enabled entry and zero on
  every other entry, where parameter and target are both wrapped modulo 1 exactly on the
  entries whose periodic flag is set. The code divides \<open>2 * (p - x0)\<close> by
  \<open>s0\<^sup>2 = 2 * width\<^sup>2\<close>, so the factor 2 of the claim cancels.
\<close>

theorem GaussianPrior_gradient_value:
  assumes init: "GaussianPrior_init locations widths mod' mask' = Inr gp"
    and lw: "length widths = length locations"
    and lp: "length parameters = length locations"
    and nz: "\<forall>i<length locations. gp_mask gp ! i \<longrightarrow> widths ! i \<noteq> 0"
  shows "GaussianPrior_gradient gp parameters =
    Inr (map (\<lambda>i. if gp_mask gp ! i
                    then (wrap_if (mod' ! i) (parameters ! i) - wrap_if (mod' ! i) (locations ! i))
                         / (widths ! i) ^ 2
                    else 0) [0..<length locations])"
proof -
  let ?m = "gp_mask gp"
  let ?n = "length locations"
  from GaussianPrior_init_fields [OF init lw]
  have lm: "length mod' = ?n" and lk: "length ?m = ?n"
    and x0: "gp_x0 gp = compress (map (\<lambda>(c, l). wrap_if c l) (zip mod' locations)) ?m"
    and s0: "gp_s0 gp = compress (map (\<lambda>w. w * sqrt 2) widths) ?m"
    and md: "gp_mod gp = compress mod' ?m"
    by simp_all
  show ?thesis
  proof (cases "np_any ?m")
    case False
    then have "\<forall>i<?n. \<not> ?m ! i" using lk by (simp add: np_any_iff)
    with False lp show ?thesis
      by (auto simp: GaussianPrior_gradient_def intro!: nth_equalityI)
  next
    case True
    let ?full = "map (\<lambda>(p, c, l, w). (2 * (wrap_if c p - wrap_if c l)) / (w * sqrt 2) ^ 2)
        (zip parameters (zip mod' (zip locations widths)))"
    have wh: "np_where (compress mod' ?m) (map np_mod1 (compress parameters ?m)) (compress parameters ?m)
        = Inr (compress (map (\<lambda>(c, p). wrap_if c p) (zip mod' parameters)) ?m)"
    proof -
      have "map (\<lambda>(ci, ai, bi). if ci then ai else bi)
              (zip (compress mod' ?m) (zip (map np_mod1 (compress parameters ?m)) (compress parameters ?m)))
          = compress (map (\<lambda>(ci, ai, bi). if ci then ai else bi)
              (zip mod' (zip (map np_mod1 parameters) parameters))) ?m"
        by (simp add: compress_map [symmetric] compress_zip)
      also have "map (\<lambda>(ci, ai, bi). if ci then ai else bi)
              (zip mod' (zip (map np_mod1 parameters) parameters))
          = map (\<lambda>(c, p). wrap_if c p) (zip mod' parameters)"
        using lm lp by (intro nth_equalityI) (simp_all add: wrap_if_def)
      finally show ?thesis
        using lm lp lk by (simp add: np_where_def length_compress)
    qed
    have sub: "np_sub (compress (map (\<lambda>(c, p). wrap_if c p) (zip mod' parameters)) ?m) (gp_x0 gp)
        = Inr (compress (map (\<lambda>(p, c, l). wrap_if c p - wrap_if c l)
                 (zip parameters (zip mod' locations))) ?m)"
    proof -
      have "map (\<lambda>(x, y). x - y)
              (zip (compress (map (\<lambda>(c, p). wrap_if c p) (zip mod' parameters)) ?m)
                   (compress (map (\<lambda>(c, l). wrap_if c l) (zip mod' locations)) ?m))
          = compress (map (\<lambda>(x, y). x - y)
              (zip (map (\<lambda>(c, p). wrap_if c p) (zip mod' parameters))
                   (map (\<lambda>(c, l). wrap_if c l) (zip mod' locations)))) ?m"
        by (simp add: compress_map [symmetric] compress_zip)
      also have "map (\<lambda>(x, y). x - y)
              (zip (map (\<lambda>(c, p). wrap_if c p) (zip mod' parameters))
                   (map (\<lambda>(c, l). wrap_if c l) (zip mod' locations)))
          = map (\<lambda>(p, c, l). wrap_if c p - wrap_if c l) (zip parameters (zip mod' locations))"
        using lm lp by (intro nth_equalityI) simp_all
      finally show ?thesis
        using lm lp lk by (simp add: np_sub_def x0 length_compress)
    qed
    have nz': "0 \<notin> set (map (\<lambda>s. s ^ 2) (gp_s0 gp))"
    proof
      assume "0 \<in> set (map (\<lambda>s. s ^ 2) (gp_s0 gp))"
      then have "0 \<in> set (compress (map (\<lambda>w. (w * sqrt 2) ^ 2) widths) ?m)"
        by (simp add: s0 compress_map [symmetric] comp_def)
      then obtain i where "i < ?n" "?m ! i" "(widths ! i * sqrt 2) ^ 2 = 0"
        using lk lw by (auto simp: set_compress)
      with nz show False by simp
    qed
    have dv: "np_div (map (\<lambda>x. 2 * x) (compress (map (\<lambda>(p, c, l). wrap_if c p - wrap_if c l)
                 (zip parameters (zip mod' locations))) ?m)) (map (\<lambda>s. s ^ 2) (gp_s0 gp))
        = Inr (compress ?full ?m)"
    proof -
      have "map (\<lambda>(x, y). x / y)
             (zip (map (\<lambda>x. 2 * x) (compress (map (\<lambda>(p, c, l). wrap_if c p - wrap_if c l)
                 (zip parameters (zip mod' locations))) ?m))
                  (map (\<lambda>s. s ^ 2) (compress (map (\<lambda>w. w * sqrt 2) widths) ?m)))
          = compress (map (\<lambda>(x, y). x / y)
             (zip (map (\<lambda>x. 2 * x) (map (\<lambda>(p, c, l). wrap_if c p - wrap_if c l)
                 (zip parameters (zip mod' locations))))
                  (map (\<lambda>s. s ^ 2) (map (\<lambda>w. w * sqrt 2) widths)))) ?m"
        by (simp only: compress_map [symmetric] compress_zip)
      also have "map (\<lambda>(x, y). x / y)
             (zip (map (\<lambda>x. 2 * x) (map (\<lambda>(p, c, l). wrap_if c p - wrap_if c l)
                 (zip parameters (zip mod' locations))))
                  (map (\<lambda>s. s ^ 2) (map (\<lambda>w. w * sqrt 2) widths))) = ?full"
        using lm lp lw by (intro nth_equalityI) simp_all
      finally show ?thesis
        using nz' lm lp lk lw by (simp add: np_div_def s0 length_compress)
    qed
    have sc: "bool_assign (replicate (length ?m) 0) ?m (compress ?full ?m)
        = Inr (map (\<lambda>(b, v, e). if e then v else b) (zip (replicate (length ?m) 0) (zip ?full ?m)))"
      using lm lp lk lw by (simp add: bool_assign_def length_compress scatter_compress)
    have fin: "map (\<lambda>(b, v, e). if e then v else b) (zip (replicate (length ?m) 0) (zip ?full ?m))
        = map (\<lambda>i. if ?m ! i
                    then (wrap_if (mod' ! i) (parameters ! i) - wrap_if (mod' ! i) (locations ! i))
                         / (widths ! i) ^ 2
                    else 0) [0..<?n]"
      using lm lp lk lw by (intro nth_equalityI) (simp_all add: power_mult_distrib gradient_arith)
    have bi: "bool_index parameters ?m = Inr (compress parameters ?m)"
      using lp lk by (simp add: bool_index_def)
    show ?thesis
      unfolding GaussianPrior_gradient_def
      by (simp only: True not_True_eq_False if_False bi md wh sub dv sc fin ebind_Inr)
  qed
qed

theorem GaussianPrior_gradient_value_witness:
  "GaussianPrior_init [1/4, 3/2] [1, 2] [False, True] (Some [False, True])
     = Inr \<lparr>gp_x0 = [1/2], gp_s0 = [2 * sqrt 2], gp_mod = [True], gp_mask = [False, True]\<rparr>
   \<and> GaussianPrior_gradient
        \<lparr>gp_x0 = [1/2], gp_s0 = [2 * sqrt 2], gp_mod = [True], gp_mask = [False, True]\<rparr>
        [3, 11/4] = Inr [0, 1/16]"
proof -
  let ?gp = "\<lparr>gp_x0 = [1/2], gp_s0 = [2 * sqrt 2], gp_mod = [True], gp_mask = [False, True]\<rparr>"
  have init: "GaussianPrior_init [1/4, 3/2] [1, 2] [False, True] (Some [False, True]) = Inr ?gp"
    by (simp add: GaussianPrior_init_def np_where_def bool_index_def np_mod1_def)
  have nz: "\<forall>i<length [1/4, 3/2 :: real]. gp_mask ?gp ! i \<longrightarrow> [1, 2 :: real] ! i \<noteq> 0"
    by (simp add: nth_Cons' )
  have "GaussianPrior_gradient ?gp [3, 11/4] = Inr [0, 1/16]"
    using GaussianPrior_gradient_value [OF init _ _ nz, of "[3, 11/4]"]
    by (simp add: wrap_if_def np_mod1_def upt_rec)
  with init show ?thesis by simp
qed


text \<open>
  Claim C5 as stated fails: for target 0, width 1, no periodic flag and parameter 1 the
  code returns 1 on the enabled entry, and the claimed value
  \<open>2 * (param - target) / width\<^sup>2\<close> is 2.
\<close>

theorem GaussianPrior_gradient_counterexample:
  "GaussianPrior_init [0] [1] [False] (Some [True])
     = Inr \<lparr>gp_x0 = [0], gp_s0 = [sqrt 2], gp_mod = [False], gp_mask = [True]\<rparr>
   \<and> GaussianPrior_gradient \<lparr>gp_x0 = [0], gp_s0 = [sqrt 2], gp_mod = [False], gp_mask = [True]\<rparr> [1]
     = Inr [1]
   \<and> (1::real) \<noteq> 2 * (1 - 0) / 1 ^ 2"
  by (simp add: GaussianPrior_init_def GaussianPrior_gradient_def np_where_def bool_index_def
      np_any_def np_sub_def np_div_def bool_assign_def)

section \<open>Evaluation: the weighted sum\<close>

declare show_nat.simps [simp del]

lemma foldl_add_scaled:
  "length rv = length phases \<Longrightarrow>
   foldl (\<lambda>rv (n, prim). add_arrays rv (scaled n (prim_eval pops h prim phases e)))
      rv (zip (map Scalar ws) rs)
   = map (\<lambda>(x, ph). x + (\<Sum>(w, r)\<leftarrow>zip ws rs. w * prim_call pops (prim_at h r) ph e))
       (zip rv phases)"
proof (induction ws arbitrary: rs rv)
  case Nil
  then show ?case by (intro nth_equalityI) simp_all
next
  case (Cons w ws)
  show ?case
  proof (cases rs)
    case Nil
    with Cons.prems show ?thesis by (intro nth_equalityI) simp_all
  next
    case (Cons r rs')
    have len: "length (add_arrays rv (scaled (Scalar w) (prim_eval pops h r phases e))) = length phases"
      using Cons.prems by (simp add: add_arrays_def scaled_def prim_eval_def)
    show ?thesis
      using Cons.prems
      by (simp add: Cons Cons.IH [OF len])
         (intro nth_equalityI, simp_all add: add_arrays_def scaled_def prim_eval_def algebra_simps)
  qed
qed

lemma sum_list_zip_nth:
  "length ws = length rs \<Longrightarrow>
   (\<Sum>(w, r)\<leftarrow>zip ws rs. f w r) = (\<Sum>i<length rs. f (ws ! i) (rs ! i))"
proof -
  assume l: "length ws = length rs"
  have "(\<Sum>(w, r)\<leftarrow>zip ws rs. f w r) = (\<Sum>i = 0..<length (zip ws rs). (map (\<lambda>(w, r). f w r) (zip ws rs)) ! i)"
    by (simp add: sum_list_sum_nth)
  also have "\<dots> = (\<Sum>i<length rs. f (ws ! i) (rs ! i))"
    using l by (simp add: atLeast0LessThan)
  finally show ?thesis .
qed

lemma two_ramps_init:
  "LCTemplate_init poly_ops weights_ops two_ramps_store [0, 1] (NormsObject 2)
     = Inr (two_ramps, two_ramps_store)"
  by (simp add: LCTemplate_init_def init_common_def sanity_checks_def set_cache_properties_def
      mark_cache_dirty_def two_ramps_def two_ramps_store_def poly_store_def weights_ops_def
      poly_ops_def)

text \<open>
  Claim C1. For a standard (non-bridge) template whose NormMap gives one weight for each
  primitive, evaluating the template with \<open>use_cache = False\<close> computes the weights
  \<open>w\<close> at the energy and \<open>total = sum w\<close>, and returns at each phase the weighted sum
  \<open>sum_i w_i * primitive_i(phase, energy)\<close> plus \<open>1 - total\<close>; with \<open>suppress_bg\<close> the
  background term is omitted and the weighted sum is divided by \<open>total\<close> (a non-finite
  float when \<open>total = 0\<close>). Nothing is printed and the template is unchanged.
\<close>

theorem LCTemplate_call_weighted_sum:
  assumes std: "\<not> has_bridge self"
    and len: "length (norm_call nops (norm_at h (norms self)) log10_ens) = length (primitives self)"
  shows "LCTemplate_call pops nops h self phases log10_ens suppress_bg False =
     (let w = norm_call nops (norm_at h (norms self)) log10_ens;
          total = sum_list w;
          pulsed = map (weighted_sum pops h w (primitives self) log10_ens) phases
      in (if suppress_bg
          then (if total = 0 \<and> phases \<noteq> [] then Inl NonFiniteResult
                else Inr (map (\<lambda>x. x / total) pulsed))
          else Inr (map (\<lambda>x. x + (1 - total)) pulsed),
          [], self))"
proof -
  let ?w = "norm_call nops (norm_at h (norms self)) log10_ens"
  have fold: "foldl (\<lambda>rv (n, prim). add_arrays rv (scaled n (prim_eval pops h prim phases log10_ens)))
        (map (\<lambda>_. 0) phases) (zip (map Scalar ?w) (primitives self))
      = map (weighted_sum pops h ?w (primitives self) log10_ens) phases"
    by (subst foldl_add_scaled, simp, intro nth_equalityI)
       (simp_all add: weighted_sum_def sum_list_zip_nth [OF len])
  show ?thesis
    using std
    by (simp add: LCTemplate_call_def call_direct_def get_scales_def LCTemplate_get_scales_def
        Let_def fold div_scalar_def)
qed

theorem LCTemplate_call_weighted_sum_witness:
  "LCTemplate_call poly_ops weights_ops two_ramps_store two_ramps [0, 1/2] 3 False False
     = (Inr [9/8, 1], [], two_ramps)
   \<and> LCTemplate_call poly_ops weights_ops two_ramps_store two_ramps [0, 1/2] 3 True False
     = (Inr [7/6, 1], [], two_ramps)"
proof -
  have std: "\<not> has_bridge two_ramps" by (simp add: two_ramps_def)
  have len: "length (norm_call weights_ops (norm_at two_ramps_store (norms two_ramps)) 3)
      = length (primitives two_ramps)"
    by (simp add: two_ramps_def two_ramps_store_def poly_store_def weights_ops_def)
  show ?thesis
    using LCTemplate_call_weighted_sum [OF std len, of poly_ops "[0, 1/2]" False]
      LCTemplate_call_weighted_sum [OF std len, of poly_ops "[0, 1/2]" True]
    by (simp add: two_ramps_def two_ramps_store_def poly_store_def weights_ops_def poly_ops_def
        weighted_sum_def Let_def lessThan_Suc numeral_2_eq_2)
qed

section \<open>A single component\<close>

lemma py_index_nat:
  "i < length xs \<Longrightarrow> py_index xs (int i) = Inr (xs ! i)"
  by (simp add: py_index_def Let_def)

lemma LCTemplate_single_component_value:
  assumes "i < length (primitives self)"
    and "length (norm_call nops (norm_at h (norms self)) log10_ens) = length (primitives self)"
  shows "LCTemplate_single_component pops nops h self (int i) phases log10_ens add_bg =
     Inr (map (\<lambda>ph. prim_call pops (prim_at h (primitives self ! i)) ph log10_ens
                       * norm_call nops (norm_at h (norms self)) log10_ens ! i
                     + (if add_bg then sum_list (norm_call nops (norm_at h (norms self)) log10_ens)
                        else 0)) phases)"
  using assms
  by (simp add: LCTemplate_single_component_def Let_def py_index_nat prim_eval_def comp_def)

text \<open>
  Claim C3 at a concrete input: the component 0 of the template of two ramps, at phase
  \<open>1/2\<close>. Without \<open>add_bg\<close> the method returns the weighted primitive \<open>1/4 * 1\<close>. With
  \<open>add_bg\<close> it adds \<open>sum w = 3/4\<close> and returns \<open>1\<close>, where the background term of the
  claim, \<open>1 - sum w = 1/4\<close>, would give \<open>1/2\<close>.
\<close>

theorem single_component_add_bg_adds_total:
  "LCTemplate_single_component poly_ops weights_ops two_ramps_store two_ramps 0 [1/2] 3 False
     = Inr [1/4]
   \<and> LCTemplate_single_component poly_ops weights_ops two_ramps_store two_ramps 0 [1/2] 3 True
     = Inr [1]
   \<and> (1::real) \<noteq> 1/4 + (1 - sum_list [1/4, 1/2])"
  by (simp add: LCTemplate_single_component_def py_index_def prim_eval_def two_ramps_def
      two_ramps_store_def poly_store_def weights_ops_def poly_ops_def)

section \<open>The bridge\<close>

lemma bridge_solve_Inr:
  assumes "bg_d g \<noteq> 0" "bg_delta g \<noteq> 0" "pedestal_denominator g \<noteq> 0"
  shows "bridge_solve g nped =
     Inr (nped * (1 / pedestal_denominator g),
          nped * (1 / pedestal_denominator g) / (bg_delta g * bg_d g) * (bg_f21 g - bg_f22 g),
          nped * (1 / pedestal_denominator g) / (bg_delta g * bg_d g) * (bg_f12 g - bg_f11 g),
          nped * (1 / pedestal_denominator g) / bg_delta g)"
  using assms by (simp add: bridge_solve_def fdiv_def pedestal_denominator_def Let_def)

lemma bridge_solve_balance:
  assumes "bridge_solve g nped = Inr (k, dn1, dn2, ped)"
    and "bg_d g = bg_f11 g * bg_f22 g - bg_f12 g * bg_f21 g"
  shows "dn1 * bg_f11 g + dn2 * bg_f21 g + ped = 0"
    and "dn1 * bg_f12 g + dn2 * bg_f22 g + ped = 0"
    and "ped = k / bg_delta g"
proof -
  from assms(1) have nz: "bg_delta g * bg_d g \<noteq> 0" and nzd: "bg_delta g \<noteq> 0"
    and dn1: "dn1 = k / (bg_delta g * bg_d g) * (bg_f21 g - bg_f22 g)"
    and dn2: "dn2 = k / (bg_delta g * bg_d g) * (bg_f12 g - bg_f11 g)"
    and ped: "ped = k / bg_delta g"
    by (auto simp: bridge_solve_def fdiv_def ebind_def Let_def split: if_splits sum.splits)
  from nz have d: "bg_d g \<noteq> 0" by simp
  define c where "c = k / (bg_delta g * bg_d g)"
  have c: "c * bg_d g = k / bg_delta g"
    using d nzd by (simp add: c_def field_simps)
  show "ped = k / bg_delta g" by (rule ped)
  have "dn1 * bg_f11 g + dn2 * bg_f21 g = - (c * (bg_f11 g * bg_f22 g - bg_f12 g * bg_f21 g))"
    unfolding dn1 dn2 c_def [symmetric] by (simp add: algebra_simps)
  also have "\<dots> = - (k / bg_delta g)" by (simp add: assms(2) [symmetric] c)
  finally show "dn1 * bg_f11 g + dn2 * bg_f21 g + ped = 0" by (simp add: ped)
  have "dn1 * bg_f12 g + dn2 * bg_f22 g = - (c * (bg_f11 g * bg_f22 g - bg_f12 g * bg_f21 g))"
    unfolding dn1 dn2 c_def [symmetric] by (simp add: algebra_simps)
  also have "\<dots> = - (k / bg_delta g)" by (simp add: assms(2) [symmetric] c)
  finally show "dn1 * bg_f12 g + dn2 * bg_f22 g + ped = 0" by (simp add: ped)
qed

lemma bridge_geometry_d:
  "bg_d (bridge_geometry pops p1 p2 e)
     = bg_f11 (bridge_geometry pops p1 p2 e) * bg_f22 (bridge_geometry pops p1 p2 e)
       - bg_f12 (bridge_geometry pops p1 p2 e) * bg_f21 (bridge_geometry pops p1 p2 e)"
  by (simp add: bridge_geometry_def Let_def)

lemma bridge_mask_ends:
  "bridge_mask g (bg_l1 g)" "bridge_mask g (bg_l2 g)"
  by (auto simp: bridge_mask_def)

lemma weighted_sum_snoc2:
  "weighted_sum pops h w (rs @ [r1, r2]) e ph =
     (\<Sum>i<length rs. w ! i * prim_call pops (prim_at h (rs ! i)) ph e)
     + w ! length rs * prim_call pops (prim_at h r1) ph e
     + w ! Suc (length rs) * prim_call pops (prim_at h r2) ph e"
  by (simp add: weighted_sum_def nth_append)

lemma bridge_call_value:
  assumes br: "has_bridge self"
    and prims: "primitives self = rs @ [r1, r2]"
    and p12: "p1p2 self = Some (r1, r2)"
    and len: "length (norm_call nops (norm_at h (norms self)) e) = Suc (length (primitives self))"
    and solve: "bridge_solve (bridge_geometry pops (prim_at h r1) (prim_at h r2) e)
                  (norm_call nops (norm_at h (norms self)) e ! 0) = Inr (k, dn1, dn2, ped)"
  shows "call_direct pops nops h self phases e False =
     Inr (map (\<lambda>ph. outside_value pops nops h self e ph
                 + of_bool (bridge_mask (bridge_geometry pops (prim_at h r1) (prim_at h r2) e) ph)
                   * (ped + dn1 * prim_call pops (prim_at h r1) ph e
                          + dn2 * prim_call pops (prim_at h r2) ph e)) phases)"
proof -
  let ?all = "norm_call nops (norm_at h (norms self)) e"
  let ?nrm = "drop (Suc 0) ?all"
  let ?g = "bridge_geometry pops (prim_at h r1) (prim_at h r2) e"
  let ?m = "length rs"
  let ?mask = "map (bridge_mask ?g) phases"
  let ?A1 = "Array (map (\<lambda>b. ?nrm ! ?m + dn1 * of_bool b) ?mask)"
  let ?A2 = "Array (map (\<lambda>b. ?nrm ! Suc ?m + dn2 * of_bool b) ?mask)"
  let ?step = "\<lambda>rv (n, prim). add_arrays rv (scaled n (prim_eval pops h prim phases e))"
  have lall: "length ?all = ?m + 3" using len prims by simp
  have lnrm: "length ?nrm = ?m + 2" using lall by simp
  have idx0: "py_index ?all 0 = Inr (?all ! 0)"
    using lall by (simp add: py_index_def)
  have scales: "LCBridgeTemplate_get_scales pops nops h self phases e =
      Inr (map (\<lambda>b. ped * of_bool b) ?mask,
           map Scalar (take ?m ?nrm) @ [?A1, ?A2], sum_list ?all)"
    unfolding LCBridgeTemplate_get_scales_def Let_def
    using lnrm by (simp only: idx0 ebind_Inr p12) (simp add: numeral_2_eq_2 solve)
  have z: "zip (map Scalar (take ?m ?nrm) @ [?A1, ?A2]) (rs @ [r1, r2])
      = zip (map Scalar (take ?m ?nrm)) rs @ [(?A1, r1), (?A2, r2)]"
    using lnrm by (subst zip_append) simp_all
  have first: "foldl ?step (map (\<lambda>b. ped * of_bool b) ?mask) (zip (map Scalar (take ?m ?nrm)) rs)
      = map (\<lambda>ph. ped * of_bool (bridge_mask ?g ph)
                + (\<Sum>i<?m. ?nrm ! i * prim_call pops (prim_at h (rs ! i)) ph e)) phases"
  proof -
    have l: "length (take ?m ?nrm) = length rs" using lnrm by simp
    show ?thesis
      by (subst foldl_add_scaled, simp, intro nth_equalityI)
         (simp_all add: sum_list_zip_nth [OF l])
  qed
  have fold: "foldl ?step (map (\<lambda>b. ped * of_bool b) ?mask)
        (zip (map Scalar (take ?m ?nrm) @ [?A1, ?A2]) (primitives self))
      = map (\<lambda>ph. ped * of_bool (bridge_mask ?g ph)
                + (\<Sum>i<?m. ?nrm ! i * prim_call pops (prim_at h (rs ! i)) ph e)
                + (?nrm ! ?m + dn1 * of_bool (bridge_mask ?g ph)) * prim_call pops (prim_at h r1) ph e
                + (?nrm ! Suc ?m + dn2 * of_bool (bridge_mask ?g ph)) * prim_call pops (prim_at h r2) ph e)
          phases"
    unfolding prims z foldl_append first
    by (intro nth_equalityI) (simp_all add: add_arrays_def scaled_def prim_eval_def)
  have "call_direct pops nops h self phases e False =
      Inr (map (\<lambda>x. (1 - sum_list ?all) + x)
        (map (\<lambda>ph. ped * of_bool (bridge_mask ?g ph)
                + (\<Sum>i<?m. ?nrm ! i * prim_call pops (prim_at h (rs ! i)) ph e)
                + (?nrm ! ?m + dn1 * of_bool (bridge_mask ?g ph)) * prim_call pops (prim_at h r1) ph e
                + (?nrm ! Suc ?m + dn2 * of_bool (bridge_mask ?g ph)) * prim_call pops (prim_at h r2) ph e)
          phases))"
    unfolding call_direct_def get_scales_def
    by (simp only: br if_True scales ebind_Inr prod.case Let_def fold if_False)
  also have "\<dots> = Inr (map (\<lambda>ph. outside_value pops nops h self e ph
                 + of_bool (bridge_mask ?g ph)
                   * (ped + dn1 * prim_call pops (prim_at h r1) ph e
                          + dn2 * prim_call pops (prim_at h r2) ph e)) phases)"
    by (simp add: outside_value_def Let_def prims weighted_sum_snoc2 algebra_simps)
  finally show ?thesis .
qed

lemma bridge_pair_init:
  "LCBridgeTemplate_init poly_ops weights_ops bridge_store [0, 1] (NormsObject 2)
     = Inr (bridge_pair, bridge_store)"
  by (simp add: LCBridgeTemplate_init_def init_common_def sanity_checks_def
      set_cache_properties_def mark_cache_dirty_def bridge_pair_def bridge_store_def
      poly_store_def weights_ops_def poly_ops_def py_index_def)

text \<open>
  Claim C2, as amended. Let a bridge template hold its two peaks \<open>p1\<close>, \<open>p2\<close> as its
  last two primitives, with one weight more than primitives, and let the determinant
  \<open>d\<close>, the interval length \<open>delta\<close> and the pedestal denominator
  \<open>1 - (i1 * (f22 - f21) + i2 * (f11 - f12)) / (d * delta)\<close> be nonzero. Then the solver
  returns coefficients \<open>k\<close>, \<open>dn1\<close>, \<open>dn2\<close> with
  \<open>dn1 * p1(lj) + dn2 * p2(lj) + k / delta = 0\<close> at both boundary locations; the template
  evaluates, at a phase inside the inclusive mask, to the value outside the interval plus
  \<open>k / delta + dn1 * p1 + dn2 * p2\<close> (the effective weights \<open>n1 + dn1\<close>, \<open>n2 + dn2\<close> and
  the pedestal), and outside the mask to the value with \<open>n1\<close>, \<open>n2\<close> and no pedestal; at
  \<open>l1\<close> and \<open>l2\<close> the two agree.
\<close>

theorem bridge_continuity:
  assumes br: "has_bridge self"
    and prims: "primitives self = rs @ [r1, r2]"
    and p12: "p1p2 self = Some (r1, r2)"
    and len: "length (norm_call nops (norm_at h (norms self)) e) = Suc (length (primitives self))"
    and g: "g = bridge_geometry pops (prim_at h r1) (prim_at h r2) e"
    and d: "bg_d g \<noteq> 0" and delta: "bg_delta g \<noteq> 0" and den: "pedestal_denominator g \<noteq> 0"
  shows "\<exists>k dn1 dn2.
      bridge_solve g (norm_call nops (norm_at h (norms self)) e ! 0)
        = Inr (k, dn1, dn2, k / bg_delta g)
      \<and> dn1 * prim_call pops (prim_at h r1) (bg_l1 g) e
          + dn2 * prim_call pops (prim_at h r2) (bg_l1 g) e + k / bg_delta g = 0
      \<and> dn1 * prim_call pops (prim_at h r1) (bg_l2 g) e
          + dn2 * prim_call pops (prim_at h r2) (bg_l2 g) e + k / bg_delta g = 0
      \<and> (\<forall>ph. LCTemplate_call pops nops h self [ph] e False False =
            (Inr [outside_value pops nops h self e ph
                  + (if bridge_mask g ph
                     then k / bg_delta g + dn1 * prim_call pops (prim_at h r1) ph e
                          + dn2 * prim_call pops (prim_at h r2) ph e
                     else 0)], [], self))
      \<and> LCTemplate_call pops nops h self [bg_l1 g, bg_l2 g] e False False =
            (Inr [outside_value pops nops h self e (bg_l1 g),
                  outside_value pops nops h self e (bg_l2 g)], [], self)"
proof -
  let ?nped = "norm_call nops (norm_at h (norms self)) e ! 0"
  from bridge_solve_Inr [OF d delta den, of ?nped]
  obtain k dn1 dn2 ped where solve: "bridge_solve g ?nped = Inr (k, dn1, dn2, ped)"
    by blast
  have dg: "bg_d g = bg_f11 g * bg_f22 g - bg_f12 g * bg_f21 g"
    unfolding g by (rule bridge_geometry_d)
  note bal = bridge_solve_balance [OF solve dg]
  have f: "bg_f11 g = prim_call pops (prim_at h r1) (bg_l1 g) e"
    "bg_f12 g = prim_call pops (prim_at h r1) (bg_l2 g) e"
    "bg_f21 g = prim_call pops (prim_at h r2) (bg_l1 g) e"
    "bg_f22 g = prim_call pops (prim_at h r2) (bg_l2 g) e"
    by (simp_all add: g bridge_geometry_def Let_def)
  have b1: "dn1 * prim_call pops (prim_at h r1) (bg_l1 g) e
      + dn2 * prim_call pops (prim_at h r2) (bg_l1 g) e + ped = 0"
    using bal(1) by (simp add: f [symmetric])
  have b2: "dn1 * prim_call pops (prim_at h r1) (bg_l2 g) e
      + dn2 * prim_call pops (prim_at h r2) (bg_l2 g) e + ped = 0"
    using bal(2) by (simp add: f [symmetric])
  note val = bridge_call_value [OF br prims p12 len solve [unfolded g]]
  have one: "LCTemplate_call pops nops h self [ph] e False False =
        (Inr [outside_value pops nops h self e ph
              + (if bridge_mask g ph
                 then ped + dn1 * prim_call pops (prim_at h r1) ph e
                      + dn2 * prim_call pops (prim_at h r2) ph e
                 else 0)], [], self)" for ph
    by (simp add: LCTemplate_call_def val g)
  have ends: "LCTemplate_call pops nops h self [bg_l1 g, bg_l2 g] e False False =
        (Inr [outside_value pops nops h self e (bg_l1 g),
              outside_value pops nops h self e (bg_l2 g)], [], self)"
    using b1 b2 bridge_mask_ends [of g]
    by (simp add: LCTemplate_call_def val g [symmetric] algebra_simps)
  show ?thesis
    using solve b1 b2 one ends unfolding bal(3) by blast
qed

lemma bridge_store_geometry:
  "bridge_geometry poly_ops (prim_at bridge_store 0) (prim_at bridge_store (Suc 0)) 3
     = \<lparr>bg_l1 = 1/4, bg_l2 = 3/4, bg_delta = 1/2, bg_f11 = 3/4, bg_f12 = 5/4,
         bg_f21 = 3/4, bg_f22 = 3/4, bg_d = - (3/8), bg_i1 = 1/2, bg_i2 = 1/8\<rparr>"
  by (simp add: bridge_geometry_def bridge_store_def poly_store_def poly_ops_def Let_def
      power2_eq_square power3_eq_cube)

theorem bridge_continuity_witness:
  "LCTemplate_call poly_ops weights_ops bridge_store bridge_pair [1/4, 3/4] 3 False False
     = (Inr [17/24, 5/6], [], bridge_pair)"
proof -
  let ?g = "bridge_geometry poly_ops (prim_at bridge_store 0) (prim_at bridge_store (Suc 0)) 3"
  have br: "has_bridge bridge_pair" and prims: "primitives bridge_pair = [] @ [0, Suc 0]"
    and p12: "p1p2 bridge_pair = Some (0, Suc 0)"
    by (simp_all add: bridge_pair_def)
  have len: "length (norm_call weights_ops (norm_at bridge_store (norms bridge_pair)) 3)
      = Suc (length (primitives bridge_pair))"
    by (simp add: bridge_pair_def bridge_store_def poly_store_def weights_ops_def)
  have d: "bg_d ?g \<noteq> 0" and delta: "bg_delta ?g \<noteq> 0" and den: "pedestal_denominator ?g \<noteq> 0"
    by (simp_all add: bridge_store_geometry pedestal_denominator_def)
  from bridge_continuity [OF br prims p12 len refl d delta den]
  have "LCTemplate_call poly_ops weights_ops bridge_store bridge_pair [bg_l1 ?g, bg_l2 ?g] 3
      False False
    = (Inr [outside_value poly_ops weights_ops bridge_store bridge_pair 3 (bg_l1 ?g),
            outside_value poly_ops weights_ops bridge_store bridge_pair 3 (bg_l2 ?g)], [],
       bridge_pair)"
    by blast
  moreover have "outside_value poly_ops weights_ops bridge_store bridge_pair 3 (1/4) = 17/24"
    and "outside_value poly_ops weights_ops bridge_store bridge_pair 3 (3/4) = 5/6"
    by (simp_all add: outside_value_def weighted_sum_def bridge_pair_def
        bridge_store_def poly_store_def weights_ops_def poly_ops_def lessThan_Suc
        numeral_2_eq_2 power2_eq_square)
  ultimately show ?thesis
    by (simp add: bridge_store_geometry)
qed

text \<open>
  Claim C2 as stated fails: for two linear peaks the determinant is \<open>-1\<close> and the
  interval length \<open>1/2\<close>, and the pedestal denominator is \<open>1 - (- 1/2) / (- 1/2) = 0\<close>, so
  the coefficient \<open>k\<close> is not a finite float and the template has no finite value at the
  boundary locations.
\<close>

theorem bridge_continuity_counterexample:
  "bridge_geometry poly_ops (prim_at bridge_ramps_store 0) (prim_at bridge_ramps_store (Suc 0)) 3
     = \<lparr>bg_l1 = 1/4, bg_l2 = 3/4, bg_delta = 1/2, bg_f11 = 3/4, bg_f12 = 5/4,
         bg_f21 = 5/4, bg_f22 = 3/4, bg_d = - 1, bg_i1 = 1/2, bg_i2 = 1/2\<rparr>
   \<and> bridge_solve
        \<lparr>bg_l1 = 1/4, bg_l2 = 3/4, bg_delta = 1/2, bg_f11 = 3/4, bg_f12 = 5/4,
         bg_f21 = 5/4, bg_f22 = 3/4, bg_d = - 1, bg_i1 = 1/2, bg_i2 = 1/2\<rparr> (1/6)
     = Inl NonFiniteResult
   \<and> LCTemplate_call poly_ops weights_ops bridge_ramps_store bridge_pair [1/4, 3/4] 3 False False
     = (Inl NonFiniteResult, [], bridge_pair)"
proof -
  have g: "bridge_geometry poly_ops (prim_at bridge_ramps_store 0) (prim_at bridge_ramps_store (Suc 0)) 3
     = \<lparr>bg_l1 = 1/4, bg_l2 = 3/4, bg_delta = 1/2, bg_f11 = 3/4, bg_f12 = 5/4,
         bg_f21 = 5/4, bg_f22 = 3/4, bg_d = - 1, bg_i1 = 1/2, bg_i2 = 1/2\<rparr>"
    by (simp add: bridge_geometry_def bridge_ramps_store_def poly_store_def poly_ops_def Let_def
        power2_eq_square power3_eq_cube)
  have s: "bridge_solve
        \<lparr>bg_l1 = 1/4, bg_l2 = 3/4, bg_delta = 1/2, bg_f11 = 3/4, bg_f12 = 5/4,
         bg_f21 = 5/4, bg_f22 = 3/4, bg_d = - 1, bg_i1 = 1/2, bg_i2 = 1/2\<rparr> (1/6)
     = Inl NonFiniteResult"
    by (simp add: bridge_solve_def fdiv_def)
  have n: "norm_at bridge_ramps_store 2 = [1/6, 1/4, 1/4]"
    by (simp add: bridge_ramps_store_def poly_store_def)
  have "call_direct poly_ops weights_ops bridge_ramps_store bridge_pair [1/4, 3/4] 3 False
      = Inl NonFiniteResult"
    by (simp add: call_direct_def get_scales_def LCBridgeTemplate_get_scales_def bridge_pair_def
        n weights_ops_def py_index_def g s)
  with g s show ?thesis by (simp add: LCTemplate_call_def)
qed

section \<open>Setting the parameters\<close>

lemma param_start_update:
  "r \<notin> set rs \<Longrightarrow>
   param_start pops (h\<lparr>prim_at := (prim_at h)(r := v)\<rparr>) rs free i = param_start pops h rs free i"
proof -
  assume r: "r \<notin> set rs"
  have "\<And>x. x \<in> set (take i rs) \<Longrightarrow> x \<noteq> r"
    using r by (auto dest: in_set_takeD)
  then show ?thesis
    by (auto simp: param_start_def intro!: arg_cong [where f = sum_list])
qed

lemma param_start_Cons:
  "param_start pops h (r # rs) free (Suc i)
     = length (prim_get_parameters pops (prim_at h r) free) + param_start pops h rs free i"
  by (simp add: param_start_def)

lemma param_start_0 [simp]: "param_start pops h rs free 0 = 0"
  by (simp add: param_start_def)

lemma set_primitive_parameters_spec:
  "distinct rs \<Longrightarrow>
   set_primitive_parameters pops h rs p free start ok0 = (h', start', ok') \<Longrightarrow>
     start' = start + param_start pops h rs free (length rs)
   \<and> (ok' \<longleftrightarrow> ok0 \<and> (\<forall>i<length rs.
          fst (prim_set_parameters pops (prim_at h (rs ! i))
                 (take (length (prim_get_parameters pops (prim_at h (rs ! i)) free))
                    (drop (start + param_start pops h rs free i) p)) free)))
   \<and> (\<forall>i<length rs. prim_at h' (rs ! i) =
          snd (prim_set_parameters pops (prim_at h (rs ! i))
                 (take (length (prim_get_parameters pops (prim_at h (rs ! i)) free))
                    (drop (start + param_start pops h rs free i) p)) free))
   \<and> (\<forall>r. r \<notin> set rs \<longrightarrow> prim_at h' r = prim_at h r)
   \<and> norm_at h' = norm_at h \<and> next_ref h' = next_ref h"
proof (induction rs arbitrary: h start ok0)
  case Nil
  then show ?case by simp
next
  case (Cons r rs)
  let ?n = "length (prim_get_parameters pops (prim_at h r) free)"
  let ?res = "prim_set_parameters pops (prim_at h r) (take ?n (drop start p)) free"
  let ?h1 = "h\<lparr>prim_at := (prim_at h)(r := snd ?res)\<rparr>"
  from Cons.prems have dist: "distinct rs" and notin: "r \<notin> set rs" by simp_all
  from Cons.prems(2)
  have run: "set_primitive_parameters pops ?h1 rs p free (start + ?n) (fst ?res \<and> ok0)
      = (h', start', ok')"
    by (simp add: Let_def case_prod_beta)
  note IH = Cons.IH [OF dist run]
  have same: "rs ! i \<noteq> r" if "i < length rs" for i
    using that notin by (auto simp: nth_mem)
  have ps: "param_start pops ?h1 rs free i = param_start pops h rs free i" for i
    using notin by (rule param_start_update)
  have A: "start' = start + param_start pops h (r # rs) free (length (r # rs))"
    using IH by (simp add: ps param_start_Cons)
  have B: "ok' \<longleftrightarrow> ok0 \<and> (\<forall>i<length (r # rs).
          fst (prim_set_parameters pops (prim_at h ((r # rs) ! i))
                 (take (length (prim_get_parameters pops (prim_at h ((r # rs) ! i)) free))
                    (drop (start + param_start pops h (r # rs) free i) p)) free))"
    using IH by (auto simp: ps same param_start_Cons All_less_Suc2 add.assoc)
  have C: "\<forall>i<length (r # rs). prim_at h' ((r # rs) ! i) =
          snd (prim_set_parameters pops (prim_at h ((r # rs) ! i))
                 (take (length (prim_get_parameters pops (prim_at h ((r # rs) ! i)) free))
                    (drop (start + param_start pops h (r # rs) free i) p)) free)"
    using IH notin by (auto simp: ps same param_start_Cons All_less_Suc2 add.assoc)
  have D: "\<forall>x. x \<notin> set (r # rs) \<longrightarrow> prim_at h' x = prim_at h x"
    using IH by auto
  have E: "norm_at h' = norm_at h \<and> next_ref h' = next_ref h"
    using IH by simp
  from A B C D E show ?case by blast
qed

lemma linspace01_3: "linspace01 3 = Inr [0, 1/2, 1]"
  by (simp add: linspace01_def upt_rec numeral_3_eq_3)

lemma two_ramps_cached_reached:
  "get_cache poly_ops weights_ops two_ramps_store (set_cache_properties two_ramps 2 1) 0
     = (Inr [9/8, 1, 7/8], two_ramps_cached)"
proof -
  have nc: "ncache (set_cache_properties two_ramps 2 1) = 2"
    by (simp add: set_cache_properties_def mark_cache_dirty_def)
  have rd: "read_dirty (set_cache_properties two_ramps 2 1) 0
      = (True, (set_cache_properties two_ramps 2 1)\<lparr>cache_dirty := [0 \<mapsto> True]\<rparr>)"
    by (simp add: read_dirty_def is_dirty_def set_cache_properties_def mark_cache_dirty_def
        two_ramps_def)
  have cd: "call_direct poly_ops weights_ops two_ramps_store
      ((set_cache_properties two_ramps 2 1)\<lparr>cache_dirty := [0 \<mapsto> True]\<rparr>) [0, 1/2, 1] 3 False
      = Inr [9/8, 1, 7/8]"
    by (simp add: call_direct_def get_scales_def LCTemplate_get_scales_def set_cache_properties_def
        mark_cache_dirty_def two_ramps_def two_ramps_store_def poly_store_def weights_ops_def
        poly_ops_def add_arrays_def scaled_def prim_eval_def)
  have sc: "set_cache poly_ops weights_ops two_ramps_store
      ((set_cache_properties two_ramps 2 1)\<lparr>cache_dirty := [0 \<mapsto> True]\<rparr>) 0
      = (Inr (), two_ramps_cached)"
    by (simp add: set_cache_def nc linspace01_3 cd)
       (simp add: set_cache_properties_def mark_cache_dirty_def two_ramps_def
        two_ramps_cached_def)
  show ?thesis
    by (simp add: get_cache_def rd sc nc) (simp add: two_ramps_cached_def nc)
qed

lemma is_dirty_mark_cache_dirty [simp]: "is_dirty (mark_cache_dirty self) k"
  by (simp add: is_dirty_def mark_cache_dirty_def split: option.splits)

text \<open>
  Claim C9. For a template whose primitives are distinct objects, \<open>set_parameters p\<close>
  returns \<open>True\<close> exactly when the \<open>set_parameters\<close> of every primitive, called on its
  slice of \<open>p\<close>, reports success. Whatever the flag, every primitive is left in the state
  its own call produced, the NormMap has received the rest of \<open>p\<close>, and every order of
  the cache is dirty.
\<close>

theorem set_parameters_advisory:
  assumes dist: "distinct (primitives self)"
    and run: "set_parameters pops nops h self p free = (params_ok, self', h')"
  shows "(params_ok \<longleftrightarrow>
            (\<forall>i<length (primitives self).
               fst (prim_set_parameters pops (prim_at h (primitives self ! i))
                      (param_slice pops h (primitives self) free p i) free)))
     \<and> (\<forall>i<length (primitives self).
            prim_at h' (primitives self ! i) =
              snd (prim_set_parameters pops (prim_at h (primitives self ! i))
                     (param_slice pops h (primitives self) free p i) free))
     \<and> norm_at h' (norms self) =
          norm_set_parameters nops (norm_at h (norms self))
            (drop (param_start pops h (primitives self) free (length (primitives self))) p) free
     \<and> self' = mark_cache_dirty self
     \<and> (\<forall>k. is_dirty self' k)"
proof -
  obtain h1 start1 ok1 where loop:
    "set_primitive_parameters pops h (primitives self) p free 0 True = (h1, start1, ok1)"
    by (cases "set_primitive_parameters pops h (primitives self) p free 0 True") auto
  note spec = set_primitive_parameters_spec [OF dist loop]
  from run loop have ok: "params_ok = ok1" and self': "self' = mark_cache_dirty self"
    and h': "h' = h1\<lparr>norm_at := (norm_at h1)(norms self :=
                 norm_set_parameters nops (norm_at h1 (norms self)) (drop start1 p) free)\<rparr>"
    by (simp_all add: set_parameters_def Let_def)
  from spec show ?thesis
    by (simp add: ok self' h' param_slice_def)
qed

theorem set_parameters_advisory_witness:
  "(let r = set_parameters poly_ops weights_ops two_ramps_store two_ramps_cached
              [3, 0, 1/2, 1, 0, 1/8, 1/8, 1/8] True
    in \<not> fst r
       \<and> prim_at (snd (snd r)) 0 = \<lparr>poly_slope = 3, poly_curv = 0, poly_loc = 1/2\<rparr>
       \<and> prim_at (snd (snd r)) 1 = \<lparr>poly_slope = 1, poly_curv = 0, poly_loc = 1/8\<rparr>
       \<and> norm_at (snd (snd r)) 2 = [1/8, 1/8]
       \<and> is_dirty (fst (snd r)) 0)
   \<and> \<not> is_dirty two_ramps_cached 0"
proof -
  define r where "r = set_parameters poly_ops weights_ops two_ramps_store two_ramps_cached
              [3, 0, 1/2, 1, 0, 1/8, 1/8, 1/8] True"
  have dist: "distinct (primitives two_ramps_cached)"
    by (simp add: two_ramps_cached_def)
  have run: "set_parameters poly_ops weights_ops two_ramps_store two_ramps_cached
              [3, 0, 1/2, 1, 0, 1/8, 1/8, 1/8] True = (fst r, fst (snd r), snd (snd r))"
    by (simp add: r_def)
  have p: "primitives two_ramps_cached = [0, Suc 0]" "norms two_ramps_cached = 2"
    by (simp_all add: two_ramps_cached_def)
  have s: "prim_at two_ramps_store 0 = \<lparr>poly_slope = 1, poly_curv = 0, poly_loc = 1/4\<rparr>"
    "prim_at two_ramps_store (Suc 0) = \<lparr>poly_slope = - 1, poly_curv = 0, poly_loc = 3/4\<rparr>"
    "norm_at two_ramps_store 2 = [1/4, 1/2]"
    by (simp_all add: two_ramps_store_def poly_store_def)
  from set_parameters_advisory [OF dist run]
  have main: "\<not> fst r
       \<and> prim_at (snd (snd r)) 0 = \<lparr>poly_slope = 3, poly_curv = 0, poly_loc = 1/2\<rparr>
       \<and> prim_at (snd (snd r)) 1 = \<lparr>poly_slope = 1, poly_curv = 0, poly_loc = 1/8\<rparr>
       \<and> norm_at (snd (snd r)) 2 = [1/8, 1/8]
       \<and> is_dirty (fst (snd r)) 0"
    by (simp add: p s param_slice_def param_start_def poly_ops_def weights_ops_def All_less_Suc)
  have nd: "\<not> is_dirty two_ramps_cached 0"
    by (simp add: is_dirty_def two_ramps_cached_def)
  show ?thesis
    unfolding Let_def r_def [symmetric] using main nd by blast
qed

section \<open>Cache invalidation by the structural edits\<close>

lemma delete_inplace_run:
  "delete_primitive poly_ops weights_ops two_ramps_store two_ramps_cached 0 True
     = (Inr None, one_ramp_stale,
        snd (new_norm (snd (new_prim two_ramps_store
               \<lparr>poly_slope = - 1, poly_curv = 0, poly_loc = 3/4\<rparr>)) [1/2]))"
  by (simp add: delete_primitive_def two_ramps_cached_def one_ramp_stale_def enumerate_eq_zip
      upt_rec new_prim_def new_norm_def two_ramps_store_def poly_store_def weights_ops_def
      Let_def)


text \<open>
  Claim C4 at a concrete input: the template of two ramps with a filled cache of order 0
  (\<open>two_ramps_cached\<close>, whose flag for order 0 is clean). \<open>delete_primitive(0,
  inplace=True)\<close> leaves the flag clean, so the evaluation with \<open>use_cache\<close> at phase 0
  returns the grid value \<open>9/8\<close> of the template before the deletion, where the direct
  evaluation of the template after it gives \<open>5/4\<close>. \<open>swap_primitive\<close> and
  \<open>add_primitive(inplace=True)\<close> leave the flag clean as well.
\<close>

theorem inplace_edits_leave_cache_clean:
  "(let r = delete_primitive poly_ops weights_ops two_ramps_store two_ramps_cached 0 True;
        self' = fst (snd r); h' = snd (snd r)
    in fst r = Inr None \<and> primitives self' = [3] \<and> \<not> is_dirty self' 0
       \<and> fst (LCTemplate_call poly_ops weights_ops h' self' [0] 3 False True) = Inr [9/8]
       \<and> fst (LCTemplate_call poly_ops weights_ops h' self' [0] 3 False False) = Inr [5/4])
   \<and> \<not> is_dirty (fst (snd (swap_primitive poly_ops two_ramps_store two_ramps_cached 0
                                  ''LCLorentzian''))) 0
   \<and> \<not> is_dirty (fst (snd (add_primitive poly_ops weights_ops two_ramps_store
                                  two_ramps_cached 0 (1/10) True))) 0"
proof -
  let ?h = "snd (new_norm (snd (new_prim two_ramps_store
               \<lparr>poly_slope = - 1, poly_curv = 0, poly_loc = 3/4\<rparr>)) [1/2])"
  have st: "prim_at ?h 3 = \<lparr>poly_slope = - 1, poly_curv = 0, poly_loc = 3/4\<rparr>"
    "norm_at ?h 4 = [1/2]"
    by (simp_all add: new_prim_def new_norm_def two_ramps_store_def poly_store_def)
  have nd: "\<not> is_dirty one_ramp_stale 0"
    by (simp add: is_dirty_def one_ramp_stale_def two_ramps_cached_def)
  have gc: "get_cache poly_ops weights_ops ?h one_ramp_stale 0 = (Inr [9/8, 1, 7/8], one_ramp_stale)"
    by (simp add: get_cache_def read_dirty_def is_dirty_def one_ramp_stale_def
        two_ramps_cached_def)
  have cached: "fst (LCTemplate_call poly_ops weights_ops ?h one_ramp_stale [0] 3 False True)
      = Inr [9/8]"
    by (simp add: LCTemplate_call_def eval_cache_def gc)
       (simp add: one_ramp_stale_def two_ramps_cached_def linear_lookup_def lower_index_def
        float_to_int_def take_indices_def in_range_def at_index_def)
  have direct: "fst (LCTemplate_call poly_ops weights_ops ?h one_ramp_stale [0] 3 False False)
      = Inr [5/4]"
    by (simp add: LCTemplate_call_def call_direct_def get_scales_def LCTemplate_get_scales_def
        one_ramp_stale_def two_ramps_cached_def st weights_ops_def poly_ops_def add_arrays_def
        scaled_def prim_eval_def)
  have p: "primitives one_ramp_stale = [3]" by (simp add: one_ramp_stale_def)
  have swap: "\<not> is_dirty (fst (snd (swap_primitive poly_ops two_ramps_store two_ramps_cached 0
                                  ''LCLorentzian''))) 0"
    by (simp add: swap_primitive_def py_index_def two_ramps_cached_def new_prim_def is_dirty_def
        Let_def)
  have add: "\<not> is_dirty (fst (snd (add_primitive poly_ops weights_ops two_ramps_store
                                  two_ramps_cached 0 (1/10) True))) 0"
    by (simp add: add_primitive_def two_ramps_cached_def new_prim_def new_norm_def is_dirty_def
        weights_ops_def Let_def case_prod_beta)
  show ?thesis
    unfolding Let_def delete_inplace_run fst_conv snd_conv
    using nd cached direct p swap add by blast
qed

section \<open>Structural edits that return a new template\<close>

lemma store_extends_refl [simp]: "store_extends h h"
  by (simp add: store_extends_def)

lemma store_extends_trans:
  "store_extends h1 h2 \<Longrightarrow> store_extends h2 h3 \<Longrightarrow> store_extends h1 h3"
  by (auto simp: store_extends_def)

lemma new_prim_extends: "store_extends h (snd (new_prim h v))"
  by (simp add: store_extends_def new_prim_def)

lemma new_norm_extends: "store_extends h (snd (new_norm h v))"
  by (simp add: store_extends_def new_norm_def)

lemma deepcopy_all_spec:
  "deepcopy_all h rs = (rs', h') \<Longrightarrow> \<forall>r\<in>set rs. r < next_ref h \<Longrightarrow>
     rs' = [next_ref h..<next_ref h + length rs]
   \<and> next_ref h' = next_ref h + length rs
   \<and> store_extends h h'
   \<and> norm_at h' = norm_at h
   \<and> map (prim_at h') rs' = map (prim_at h) rs"
proof (induction rs arbitrary: h rs' h')
  case Nil
  then show ?case by simp
next
  case (Cons r rs)
  let ?h1 = "snd (new_prim h (prim_at h r))"
  obtain rs1 h2 where rec: "deepcopy_all ?h1 rs = (rs1, h2)"
    by (cases "deepcopy_all ?h1 rs") auto
  from Cons.prems(1) rec have rs': "rs' = next_ref h # rs1" and h': "h' = h2"
    by (simp_all add: new_prim_def Let_def)
  have n1: "next_ref ?h1 = Suc (next_ref h)" by (simp add: new_prim_def)
  have wf1: "\<forall>x\<in>set rs. x < next_ref ?h1" using Cons.prems(2) by (auto simp: n1 less_Suc_eq)
  note IH = Cons.IH [OF rec wf1]
  have ext: "store_extends h h2"
    using new_prim_extends [of h "prim_at h r"] IH by (blast intro: store_extends_trans)
  have old: "prim_at ?h1 x = prim_at h x" if "x < next_ref h" for x
    using that by (simp add: new_prim_def)
  have "prim_at h2 (next_ref h) = prim_at ?h1 (next_ref h)"
    using IH by (simp add: store_extends_def n1)
  then have head: "prim_at h2 (next_ref h) = prim_at h r" by (simp add: new_prim_def)
  have "map (prim_at ?h1) rs = map (prim_at h) rs"
    using Cons.prems(2) by (auto simp: old)
  moreover from IH have "map (prim_at h2) rs1 = map (prim_at ?h1) rs" by blast
  ultimately have tail: "map (prim_at h2) rs1 = map (prim_at h) rs" by simp
  have nm: "norm_at h2 = norm_at h" using IH by (simp add: new_prim_def)
  from IH have rs1: "rs1 = [Suc (next_ref h)..<Suc (next_ref h) + length rs]"
    and nx: "next_ref h2 = Suc (next_ref h) + length rs"
    unfolding n1 by blast+
  have u: "[next_ref h..<next_ref h + length (r # rs)]
      = next_ref h # [Suc (next_ref h)..<Suc (next_ref h) + length rs]"
    by (subst upt_rec) simp
  have A: "rs' = [next_ref h..<next_ref h + length (r # rs)]"
    unfolding u rs' rs1 ..
  have B: "next_ref h' = next_ref h + length (r # rs)"
    unfolding h' nx by simp
  have C: "map (prim_at h') rs' = map (prim_at h) (r # rs)"
    unfolding h' rs' using head tail by simp
  from A B C ext nm show ?case unfolding h' by blast
qed

lemma LCTemplate_init_object:
  "length prims = norm_len nops (norm_at h r) \<Longrightarrow>
   LCTemplate_init pops nops h prims (NormsObject r) =
     Inr (\<lparr>primitives = prims, norms = r,
           shift_mode = list_ex (\<lambda>p. prim_shift_mode pops (prim_at h p)) prims,
           cache = Map.empty, cache_dirty = Map.empty, ncache = 1000, interpolation = 1,
           has_bridge = False, p1p2 = None\<rparr>, h)"
  by (simp add: LCTemplate_init_def init_common_def sanity_checks_def set_cache_properties_def
      mark_cache_dirty_def)

lemma call_direct_store_cong:
  assumes "\<forall>r\<in>set (primitives self). prim_at h' r = prim_at h r"
    and "norm_at h' (norms self) = norm_at h (norms self)"
    and "\<not> has_bridge self"
  shows "call_direct pops nops h' self phases e sb = call_direct pops nops h self phases e sb"
proof -
  have pe: "prim_eval pops h' r phases e = prim_eval pops h r phases e"
    if "r \<in> set (primitives self)" for r
    using that assms(1) by (simp add: prim_eval_def)
  have "foldl (\<lambda>rv (n, prim). add_arrays rv (scaled n (prim_eval pops h' prim phases e))) rv zs
      = foldl (\<lambda>rv (n, prim). add_arrays rv (scaled n (prim_eval pops h prim phases e))) rv zs"
    if "snd ` set zs \<subseteq> set (primitives self)" for rv and zs :: "(scale \<times> ref) list"
    using that by (induction zs arbitrary: rv) (auto simp: pe)
  moreover have "snd ` set (zip ns (primitives self)) \<subseteq> set (primitives self)" for ns :: "scale list"
    by (auto dest: set_zip_rightD)
  ultimately show ?thesis
    using assms(2,3)
    by (simp add: call_direct_def get_scales_def LCTemplate_get_scales_def Let_def)
qed

lemma retained_enumerate:
  "k < length xs \<Longrightarrow>
   map snd (filter (\<lambda>(ip, p). int (s + k) \<noteq> int ip) (enumerate s xs))
     = take k xs @ drop (Suc k) xs"
proof (induction xs arbitrary: k s)
  case Nil
  then show ?case by simp
next
  case (Cons x xs)
  show ?case
  proof (cases k)
    case 0
    have "filter (\<lambda>(ip, p). int s \<noteq> int ip) (enumerate (Suc s) xs) = enumerate (Suc s) xs"
      by (rule filter_True) (auto simp: in_set_enumerate_eq)
    with 0 show ?thesis by simp
  next
    case (Suc k')
    with Cons.prems have "k' < length xs" by simp
    from Cons.IH [OF this, of "Suc s"] Suc show ?thesis by simp
  qed
qed

lemma retained_primitives:
  "0 \<le> i \<Longrightarrow> i < int (length xs) \<Longrightarrow>
   map snd (filter (\<lambda>(ip, p). i \<noteq> int ip) (enumerate 0 xs))
     = take (nat i) xs @ drop (Suc (nat i)) xs"
  using retained_enumerate [of "nat i" xs 0] by simp

lemma delete_primitive_copies:
  assumes wf: "\<forall>r\<in>set (primitives self). r < next_ref h"
    and n2: "2 \<le> length (primitives self)"
    and i': "i' = (if index < 0 then index + int (length (primitives self)) else index)"
    and idx: "0 \<le> i'" "i' < int (length (primitives self))"
    and del: "norm_delete_component nops (norm_at h (norms self)) i' = Inr nm"
    and dlen: "norm_len nops nm = length (primitives self) - 1"
  shows "\<exists>t h'.
      delete_primitive pops nops h self index False = (Inr (Some t), self, h')
    \<and> delete_primitive pops nops h self index True
        = (Inr None, self\<lparr>primitives := primitives t, norms := norms t\<rparr>, h')
    \<and> store_extends h h'
    \<and> list_all (\<lambda>r. next_ref h \<le> r) (primitives t) \<and> next_ref h \<le> norms t
    \<and> map (prim_at h') (primitives t)
        = map (prim_at h) (take (nat i') (primitives self) @ drop (Suc (nat i')) (primitives self))
    \<and> norm_at h' (norms t) = nm"
proof -
  let ?prims = "primitives self"
  let ?ret = "take (nat i') ?prims @ drop (Suc (nat i')) ?prims"
  have ret: "map snd (filter (\<lambda>(ip, p). i' \<noteq> int ip) (enumerate 0 ?prims)) = ?ret"
    using idx by (rule retained_primitives)
  have "nat i' < length ?prims" using idx by simp
  then have lret: "length ?ret = length ?prims - 1" by (simp add: min_def)
  have wfr: "\<forall>r\<in>set ?ret. r < next_ref h"
    using wf by (auto dest: in_set_takeD in_set_dropD)
  obtain newprims h1 where dc: "deepcopy_all h ?ret = (newprims, h1)"
    by (cases "deepcopy_all h ?ret") auto
  note spec = deepcopy_all_spec [OF dc wfr]
  from spec have np: "newprims = [next_ref h..<next_ref h + length ?ret]"
    and nx1: "next_ref h1 = next_ref h + length ?ret"
    and ext1: "store_extends h h1" and nm1: "norm_at h1 = norm_at h"
    and cp: "map (prim_at h1) newprims = map (prim_at h) ?ret"
    by blast+
  define h2 where "h2 = snd (new_norm h1 nm)"
  let ?h2 = h2
  let ?nn = "next_ref h1"
  have nn: "new_norm h1 nm = (?nn, ?h2)" by (simp add: new_norm_def h2_def)
  have at2: "norm_at ?h2 ?nn = nm" "prim_at ?h2 = prim_at h1"
    by (simp_all add: new_norm_def h2_def)
  have ext2: "store_extends h ?h2"
    unfolding h2_def using ext1 new_norm_extends [of h1 nm] by (rule store_extends_trans)
  have "length newprims = length ?ret" unfolding np by simp
  then have len: "length newprims = norm_len nops (norm_at ?h2 ?nn)"
    unfolding at2 dlen lret .
  let ?t = "\<lparr>primitives = newprims, norms = ?nn,
           shift_mode = list_ex (\<lambda>p. prim_shift_mode pops (prim_at ?h2 p)) newprims,
           cache = Map.empty, cache_dirty = Map.empty, ncache = 1000, interpolation = 1,
           has_bridge = False, p1p2 = None\<rparr>"
  note init = LCTemplate_init_object [OF len, of pops]
  have ne1: "length ?prims \<noteq> 1" using n2 by simp
  have A: "delete_primitive pops nops h self index False = (Inr (Some ?t), self, ?h2)"
    unfolding delete_primitive_def Let_def i' [symmetric] ret
    by (simp only: ne1 if_False dc prod.case nm1 del sum.case nn init)
  have B: "delete_primitive pops nops h self index True
      = (Inr None, self\<lparr>primitives := primitives ?t, norms := norms ?t\<rparr>, ?h2)"
    unfolding delete_primitive_def Let_def i' [symmetric] ret
    by (simp only: ne1 if_False dc prod.case nm1 del sum.case nn if_True) simp
  have C: "list_all (\<lambda>r. next_ref h \<le> r) (primitives ?t)"
    by (simp add: np list_all_iff)
  have D: "next_ref h \<le> norms ?t" by (simp add: nx1)
  have E: "map (prim_at ?h2) (primitives ?t) = map (prim_at h) ?ret"
    using cp by (simp add: at2)
  have F: "norm_at ?h2 (norms ?t) = nm" by (simp add: at2)
  from A B ext2 C D E F show ?thesis by blast
qed

lemma call_direct_same_objects:
  assumes p: "\<forall>r\<in>set (primitives self). prim_at h' r = prim_at h r"
    and n: "norm_at h' (norms self) = norm_at h (norms self)"
    and b: "\<forall>r1 r2. p1p2 self = Some (r1, r2) \<longrightarrow> prim_at h' r1 = prim_at h r1 \<and> prim_at h' r2 = prim_at h r2"
  shows "call_direct pops nops h' self phases e sb = call_direct pops nops h self phases e sb"
proof -
  have pe: "prim_eval pops h' r phases e = prim_eval pops h r phases e"
    if "r \<in> set (primitives self)" for r
    using that p by (simp add: prim_eval_def)
  have "foldl (\<lambda>rv (n, prim). add_arrays rv (scaled n (prim_eval pops h' prim phases e))) rv zs
      = foldl (\<lambda>rv (n, prim). add_arrays rv (scaled n (prim_eval pops h prim phases e))) rv zs"
    if "snd ` set zs \<subseteq> set (primitives self)" for rv and zs :: "(scale \<times> ref) list"
    using that by (induction zs arbitrary: rv) (auto simp: pe)
  moreover have "snd ` set (zip ns (primitives self)) \<subseteq> set (primitives self)" for ns :: "scale list"
    by (auto dest: set_zip_rightD)
  ultimately have fold: "foldl (\<lambda>rv (n, prim). add_arrays rv (scaled n (prim_eval pops h' prim phases e))) rv (zip ns (primitives self))
      = foldl (\<lambda>rv (n, prim). add_arrays rv (scaled n (prim_eval pops h prim phases e))) rv (zip ns (primitives self))"
    for rv ns by blast
  have gs: "get_scales pops nops h' self phases e = get_scales pops nops h self phases e"
  proof (cases "p1p2 self")
    case None
    with n show ?thesis
      by (simp add: get_scales_def LCTemplate_get_scales_def LCBridgeTemplate_get_scales_def
          Let_def cong: if_cong)
  next
    case (Some pr)
    obtain r1 r2 where pr: "pr = (r1, r2)" by (cases pr)
    from b Some pr have "prim_at h' r1 = prim_at h r1" "prim_at h' r2 = prim_at h r2"
      by simp_all
    with n Some pr show ?thesis
      by (simp add: get_scales_def LCTemplate_get_scales_def LCBridgeTemplate_get_scales_def
          Let_def cong: if_cong)
  qed
  show ?thesis
    by (simp add: call_direct_def gs fold)
qed

lemma call_direct_extends:
  assumes "refs_in_store self h" and "store_extends h h'"
  shows "call_direct pops nops h' self phases e sb = call_direct pops nops h self phases e sb"
  using assms
  by (intro call_direct_same_objects)
     (auto simp: refs_in_store_def store_extends_def list_all_iff)

lemma set_primitive_parameters_frame:
  "set_primitive_parameters pops h rs p free start ok0 = (h', start', ok') \<Longrightarrow>
     (\<forall>r. r \<notin> set rs \<longrightarrow> prim_at h' r = prim_at h r) \<and> norm_at h' = norm_at h"
proof (induction rs arbitrary: h start ok0)
  case Nil
  then show ?case by simp
next
  case (Cons r rs)
  let ?n = "length (prim_get_parameters pops (prim_at h r) free)"
  let ?res = "prim_set_parameters pops (prim_at h r) (take ?n (drop start p)) free"
  let ?h1 = "h\<lparr>prim_at := (prim_at h)(r := snd ?res)\<rparr>"
  from Cons.prems
  have run: "set_primitive_parameters pops ?h1 rs p free (start + ?n) (fst ?res \<and> ok0)
      = (h', start', ok')"
    by (simp add: Let_def case_prod_beta)
  from Cons.IH [OF run] show ?case by auto
qed

lemma set_parameters_frame:
  "set_parameters pops nops h t p free = (ok, t', h') \<Longrightarrow>
     (\<forall>r. r \<notin> set (primitives t) \<longrightarrow> prim_at h' r = prim_at h r)
   \<and> (\<forall>r. r \<noteq> norms t \<longrightarrow> norm_at h' r = norm_at h r)"
proof -
  assume run: "set_parameters pops nops h t p free = (ok, t', h')"
  obtain h1 start1 ok1 where loop:
    "set_primitive_parameters pops h (primitives t) p free 0 True = (h1, start1, ok1)"
    by (cases "set_primitive_parameters pops h (primitives t) p free 0 True") auto
  from run loop have h': "h' = h1\<lparr>norm_at := (norm_at h1)(norms t :=
                 norm_set_parameters nops (norm_at h1 (norms t)) (drop start1 p) free)\<rparr>"
    by (simp add: set_parameters_def Let_def)
  from set_primitive_parameters_frame [OF loop] show ?thesis
    by (simp add: h')
qed

lemma add_primitive_copies:
  assumes wf: "\<forall>r\<in>set (primitives self). r < next_ref h"
    and add: "norm_add_component nops (norm_at h (norms self)) norm' = Inr nm"
    and alen: "norm_len nops nm = Suc (length (primitives self))"
  shows "\<exists>t h'.
      add_primitive pops nops h self prim norm' False = (Inr (Some t), self, h')
    \<and> add_primitive pops nops h self prim norm' True
        = (Inr None, self\<lparr>norms := norms t, primitives := primitives t\<rparr>, h')
    \<and> store_extends h h'
    \<and> list_all (\<lambda>r. next_ref h \<le> r) (butlast (primitives t))
    \<and> last (primitives t) = prim
    \<and> next_ref h \<le> norms t
    \<and> map (prim_at h') (butlast (primitives t)) = map (prim_at h) (primitives self)
    \<and> norm_at h' (norms t) = nm
    \<and> primitives t \<noteq> []"
proof -
  let ?prims = "primitives self"
  obtain copies h1 where dc: "deepcopy_all h ?prims = (copies, h1)"
    by (cases "deepcopy_all h ?prims") auto
  note spec = deepcopy_all_spec [OF dc wf]
  from spec have np: "copies = [next_ref h..<next_ref h + length ?prims]"
    and nx1: "next_ref h1 = next_ref h + length ?prims"
    and ext1: "store_extends h h1" and nm1: "norm_at h1 = norm_at h"
    and cp: "map (prim_at h1) copies = map (prim_at h) ?prims"
    by blast+
  define h2 where "h2 = snd (new_norm h1 nm)"
  let ?nn = "next_ref h1"
  have nn: "new_norm h1 nm = (?nn, h2)" by (simp add: new_norm_def h2_def)
  have at2: "norm_at h2 ?nn = nm" "prim_at h2 = prim_at h1"
    by (simp_all add: new_norm_def h2_def)
  have ext2: "store_extends h h2"
    unfolding h2_def using ext1 new_norm_extends [of h1 nm] by (rule store_extends_trans)
  have "length (copies @ [prim]) = Suc (length ?prims)" unfolding np by simp
  then have len: "length (copies @ [prim]) = norm_len nops (norm_at h2 ?nn)"
    unfolding at2 alen .
  let ?t = "\<lparr>primitives = copies @ [prim], norms = ?nn,
           shift_mode = list_ex (\<lambda>p. prim_shift_mode pops (prim_at h2 p)) (copies @ [prim]),
           cache = Map.empty, cache_dirty = Map.empty, ncache = 1000, interpolation = 1,
           has_bridge = False, p1p2 = None\<rparr>"
  note init = LCTemplate_init_object [OF len, of pops]
  have A: "add_primitive pops nops h self prim norm' False = (Inr (Some ?t), self, h2)"
    unfolding add_primitive_def Let_def
    by (simp only: if_False dc prod.case nm1 add sum.case nn init)
  have B: "add_primitive pops nops h self prim norm' True
      = (Inr None, self\<lparr>norms := norms ?t, primitives := primitives ?t\<rparr>, h2)"
    unfolding add_primitive_def Let_def
    by (simp only: dc prod.case nm1 add sum.case nn if_True) simp
  have C: "list_all (\<lambda>r. next_ref h \<le> r) (butlast (primitives ?t))"
    by (simp add: np list_all_iff)
  have D: "next_ref h \<le> norms ?t" by (simp add: nx1)
  have E: "map (prim_at h2) (butlast (primitives ?t)) = map (prim_at h) ?prims"
    using cp by (simp add: at2)
  have F: "norm_at h2 (norms ?t) = nm" "last (primitives ?t) = prim" "primitives ?t \<noteq> []"
    by (simp_all add: at2)
  from A B ext2 C D E F show ?thesis by blast
qed

lemma fresh_template_independent:
  assumes wf: "refs_in_store self h" and ext: "store_extends h h'"
    and fp: "list_all (\<lambda>r. next_ref h \<le> r) (primitives t)" and fn: "next_ref h \<le> norms t"
  shows "call_direct pops nops (snd (snd (set_parameters pops nops h' t p free))) self phases e sb
     = call_direct pops nops h self phases e sb"
proof -
  let ?r = "set_parameters pops nops h' t p free"
  have run: "?r = (fst ?r, fst (snd ?r), snd (snd ?r))" by simp
  note fr = set_parameters_frame [OF run]
  have old: "r \<notin> set (primitives t)" if "r < next_ref h" for r
    using that fp by (auto simp: list_all_iff)
  have P: "prim_at (snd (snd ?r)) r = prim_at h r" if "r < next_ref h" for r
    using fr old [OF that] ext that by (simp add: store_extends_def)
  have N: "norm_at (snd (snd ?r)) r = norm_at h r" if "r < next_ref h" for r
    using fr fn ext that by (simp add: store_extends_def)
  show ?thesis
    using wf
    by (intro call_direct_same_objects)
       (auto simp: refs_in_store_def list_all_iff P N)
qed

lemma call_direct_same_objects_std:
  assumes std: "\<not> has_bridge self"
    and p: "\<forall>r\<in>set (primitives self). prim_at h' r = prim_at h r"
    and n: "norm_at h' (norms self) = norm_at h (norms self)"
  shows "call_direct pops nops h' self phases e sb = call_direct pops nops h self phases e sb"
proof -
  let ?s = "self\<lparr>p1p2 := None\<rparr>"
  have a: "call_direct pops nops h0 self phases e sb = call_direct pops nops h0 ?s phases e sb"
    for h0 :: "('a, 'b) store"
    using std by (simp add: call_direct_def get_scales_def LCTemplate_get_scales_def)
  have "call_direct pops nops h' ?s phases e sb = call_direct pops nops h ?s phases e sb"
    using p n by (intro call_direct_same_objects) simp_all
  then show ?thesis by (simp only: a)
qed

lemma shared_primitive_independent:
  assumes wf: "refs_in_store self h" and std: "\<not> has_bridge self"
    and ext: "store_extends h h'"
    and ne: "primitives t \<noteq> []"
    and fp: "list_all (\<lambda>r. next_ref h \<le> r) (butlast (primitives t))"
    and sh: "last (primitives t) \<notin> set (primitives self)"
    and fn: "next_ref h \<le> norms t"
  shows "call_direct pops nops (snd (snd (set_parameters pops nops h' t p free))) self phases e sb
     = call_direct pops nops h self phases e sb"
proof -
  let ?r = "set_parameters pops nops h' t p free"
  have run: "?r = (fst ?r, fst (snd ?r), snd (snd ?r))" by simp
  note fr = set_parameters_frame [OF run]
  have sp: "set (primitives t) = set (butlast (primitives t)) \<union> {last (primitives t)}"
    using ne append_butlast_last_id [of "primitives t"]
    by (metis list.set(1) list.simps(15) set_append)
  have old: "r \<notin> set (primitives t)" if "r \<in> set (primitives self)" for r
  proof -
    from wf that have "r < next_ref h" by (simp add: refs_in_store_def list_all_iff)
    with fp have "r \<notin> set (butlast (primitives t))" by (auto simp: list_all_iff)
    moreover from sh that have "r \<noteq> last (primitives t)" by auto
    ultimately show ?thesis unfolding sp by simp
  qed
  have P: "prim_at (snd (snd ?r)) r = prim_at h r" if "r \<in> set (primitives self)" for r
  proof -
    from wf that have "r < next_ref h" by (simp add: refs_in_store_def list_all_iff)
    with fr old [OF that] ext show ?thesis by (simp add: store_extends_def)
  qed
  have N: "norm_at (snd (snd ?r)) (norms self) = norm_at h (norms self)"
  proof -
    from wf have "norms self < next_ref h" by (simp add: refs_in_store_def)
    with fr fn ext show ?thesis by (simp add: store_extends_def)
  qed
  show ?thesis
    using std P N by (intro call_direct_same_objects_std) simp_all
qed

text \<open>
  Claim C10. Let \<open>self\<close> be a standard template (not a bridge template, with as many
  weights as primitives) with at least two primitives whose references are in the
  store, let \<open>index\<close> be in range, and let the NormMap's \<open>delete_component\<close> and
  \<open>add_component\<close> return NormMaps with one weight less and one weight more than the
  receiver's. Then \<open>delete_primitive\<close> with \<open>inplace=False\<close> returns a new template and
  leaves the receiver as it is; the primitives of the new template are new objects with
  the states of the retained primitives, its NormMap is a new object, and every object of
  the old store keeps its state, so the receiver evaluates as before, also after the
  parameters of the new template are set. With \<open>inplace=True\<close> nothing is returned and the
  receiver gets the new primitives and the new NormMap. \<open>add_primitive\<close> does the same,
  the new template holding copies of all primitives followed by the primitive given,
  which is shared and not copied: the receiver evaluates as before after the call, and
  also after the parameters of the new template are set when the primitive given is none
  of the receiver's.
\<close>

theorem structural_edits_copy:
  assumes wf: "refs_in_store self h"
    and std: "\<not> has_bridge self"
    and inv: "norm_len nops (norm_at h (norms self)) = length (primitives self)"
    and n2: "2 \<le> length (primitives self)"
    and i': "i' = (if index < 0 then index + int (length (primitives self)) else index)"
    and idx: "0 \<le> i'" "i' < int (length (primitives self))"
    and del: "norm_delete_component nops (norm_at h (norms self)) i' = Inr nm"
    and dlen: "norm_len nops nm = norm_len nops (norm_at h (norms self)) - 1"
    and add: "norm_add_component nops (norm_at h (norms self)) norm' = Inr nm2"
    and alen: "norm_len nops nm2 = Suc (norm_len nops (norm_at h (norms self)))"
  shows "(\<exists>t h'.
        delete_primitive pops nops h self index False = (Inr (Some t), self, h')
      \<and> delete_primitive pops nops h self index True
          = (Inr None, self\<lparr>primitives := primitives t, norms := norms t\<rparr>, h')
      \<and> store_extends h h'
      \<and> list_all (\<lambda>r. next_ref h \<le> r) (primitives t) \<and> next_ref h \<le> norms t
      \<and> map (prim_at h') (primitives t)
          = map (prim_at h) (take (nat i') (primitives self) @ drop (Suc (nat i')) (primitives self))
      \<and> norm_at h' (norms t) = nm
      \<and> (\<forall>phases e sb. call_direct pops nops h' self phases e sb
             = call_direct pops nops h self phases e sb)
      \<and> (\<forall>p free phases e sb.
             call_direct pops nops (snd (snd (set_parameters pops nops h' t p free))) self phases e sb
             = call_direct pops nops h self phases e sb))
   \<and> (\<exists>t h'.
        add_primitive pops nops h self prim norm' False = (Inr (Some t), self, h')
      \<and> add_primitive pops nops h self prim norm' True
          = (Inr None, self\<lparr>norms := norms t, primitives := primitives t\<rparr>, h')
      \<and> store_extends h h'
      \<and> primitives t \<noteq> []
      \<and> list_all (\<lambda>r. next_ref h \<le> r) (butlast (primitives t))
      \<and> last (primitives t) = prim
      \<and> next_ref h \<le> norms t
      \<and> map (prim_at h') (butlast (primitives t)) = map (prim_at h) (primitives self)
      \<and> norm_at h' (norms t) = nm2
      \<and> (\<forall>phases e sb. call_direct pops nops h' self phases e sb
             = call_direct pops nops h self phases e sb)
      \<and> (prim \<notin> set (primitives self) \<longrightarrow>
           (\<forall>p free phases e sb.
              call_direct pops nops (snd (snd (set_parameters pops nops h' t p free))) self phases e sb
              = call_direct pops nops h self phases e sb)))"
proof -
  from wf have wfp: "\<forall>r\<in>set (primitives self). r < next_ref h"
    by (simp add: refs_in_store_def list_all_iff)
  from dlen inv have dlen': "norm_len nops nm = length (primitives self) - 1" by simp
  from alen inv have alen': "norm_len nops nm2 = Suc (length (primitives self))" by simp
  from delete_primitive_copies [OF wfp n2 i' idx del dlen', of pops]
  obtain t h' where D:
    "delete_primitive pops nops h self index False = (Inr (Some t), self, h')"
    "delete_primitive pops nops h self index True
          = (Inr None, self\<lparr>primitives := primitives t, norms := norms t\<rparr>, h')"
    "store_extends h h'"
    "list_all (\<lambda>r. next_ref h \<le> r) (primitives t)" "next_ref h \<le> norms t"
    "map (prim_at h') (primitives t)
          = map (prim_at h) (take (nat i') (primitives self) @ drop (Suc (nat i')) (primitives self))"
    "norm_at h' (norms t) = nm"
    by blast
  have D1: "\<forall>phases e sb. call_direct pops nops h' self phases e sb
             = call_direct pops nops h self phases e sb"
    using call_direct_extends [OF wf D(3)] by blast
  have D2: "\<forall>p free phases e sb.
             call_direct pops nops (snd (snd (set_parameters pops nops h' t p free))) self phases e sb
             = call_direct pops nops h self phases e sb"
    using fresh_template_independent [OF wf D(3) D(4) D(5)] by blast
  from add_primitive_copies [OF wfp add alen', of pops prim]
  obtain t2 h2 where A:
    "add_primitive pops nops h self prim norm' False = (Inr (Some t2), self, h2)"
    "add_primitive pops nops h self prim norm' True
          = (Inr None, self\<lparr>norms := norms t2, primitives := primitives t2\<rparr>, h2)"
    "store_extends h h2"
    "list_all (\<lambda>r. next_ref h \<le> r) (butlast (primitives t2))"
    "last (primitives t2) = prim"
    "next_ref h \<le> norms t2"
    "map (prim_at h2) (butlast (primitives t2)) = map (prim_at h) (primitives self)"
    "norm_at h2 (norms t2) = nm2"
    "primitives t2 \<noteq> []"
    by blast
  have A1: "\<forall>phases e sb. call_direct pops nops h2 self phases e sb
             = call_direct pops nops h self phases e sb"
    using call_direct_extends [OF wf A(3)] by blast
  have A2: "prim \<notin> set (primitives self) \<longrightarrow>
           (\<forall>p free phases e sb.
              call_direct pops nops (snd (snd (set_parameters pops nops h2 t2 p free))) self phases e sb
              = call_direct pops nops h self phases e sb)"
  proof
    assume "prim \<notin> set (primitives self)"
    then have sh: "last (primitives t2) \<notin> set (primitives self)" unfolding A(5) .
    show "\<forall>p free phases e sb.
              call_direct pops nops (snd (snd (set_parameters pops nops h2 t2 p free))) self phases e sb
              = call_direct pops nops h self phases e sb"
      using shared_primitive_independent [OF wf std A(3) A(9) A(4) sh A(6)] by blast
  qed
  from D D1 D2 have left: "\<exists>t h'.
        delete_primitive pops nops h self index False = (Inr (Some t), self, h')
      \<and> delete_primitive pops nops h self index True
          = (Inr None, self\<lparr>primitives := primitives t, norms := norms t\<rparr>, h')
      \<and> store_extends h h'
      \<and> list_all (\<lambda>r. next_ref h \<le> r) (primitives t) \<and> next_ref h \<le> norms t
      \<and> map (prim_at h') (primitives t)
          = map (prim_at h) (take (nat i') (primitives self) @ drop (Suc (nat i')) (primitives self))
      \<and> norm_at h' (norms t) = nm
      \<and> (\<forall>phases e sb. call_direct pops nops h' self phases e sb
             = call_direct pops nops h self phases e sb)
      \<and> (\<forall>p free phases e sb.
             call_direct pops nops (snd (snd (set_parameters pops nops h' t p free))) self phases e sb
             = call_direct pops nops h self phases e sb)"
    by blast
  from A A1 A2 have right: "\<exists>t h'.
        add_primitive pops nops h self prim norm' False = (Inr (Some t), self, h')
      \<and> add_primitive pops nops h self prim norm' True
          = (Inr None, self\<lparr>norms := norms t, primitives := primitives t\<rparr>, h')
      \<and> store_extends h h'
      \<and> primitives t \<noteq> []
      \<and> list_all (\<lambda>r. next_ref h \<le> r) (butlast (primitives t))
      \<and> last (primitives t) = prim
      \<and> next_ref h \<le> norms t
      \<and> map (prim_at h') (butlast (primitives t)) = map (prim_at h) (primitives self)
      \<and> norm_at h' (norms t) = nm2
      \<and> (\<forall>phases e sb. call_direct pops nops h' self phases e sb
             = call_direct pops nops h self phases e sb)
      \<and> (prim \<notin> set (primitives self) \<longrightarrow>
           (\<forall>p free phases e sb.
              call_direct pops nops (snd (snd (set_parameters pops nops h' t p free))) self phases e sb
              = call_direct pops nops h self phases e sb))"
    by blast
  from left right show ?thesis ..
qed

theorem structural_edits_copy_witness:
  "(let r = delete_primitive poly_ops weights_ops two_ramps_store two_ramps_cached (- 2) False
    in fst (snd r) = two_ramps_cached
       \<and> prim_at (snd (snd r)) 0 = \<lparr>poly_slope = 1, poly_curv = 0, poly_loc = 1/4\<rparr>
       \<and> prim_at (snd (snd r)) 1 = \<lparr>poly_slope = - 1, poly_curv = 0, poly_loc = 3/4\<rparr>
       \<and> norm_at (snd (snd r)) 2 = [1/4, 1/2]
       \<and> call_direct poly_ops weights_ops (snd (snd r)) two_ramps_cached [0] 3 False = Inr [9/8])
   \<and> (let r = add_primitive poly_ops weights_ops two_ramps_store two_ramps_cached 0 (1/10) False
      in fst (snd r) = two_ramps_cached
         \<and> call_direct poly_ops weights_ops (snd (snd r)) two_ramps_cached [0] 3 False = Inr [9/8])
   \<and> (let r = add_primitive poly_ops weights_ops three_polys_store two_ramps_cached 2 (1/10) False
      in case fst r of
           Inr (Some t) \<Rightarrow>
             call_direct poly_ops weights_ops
               (snd (snd (set_parameters poly_ops weights_ops (snd (snd r)) t
                            [2, 0, 1/2, 2, 0, 1/2, 2, 0, 1/2] True)))
               two_ramps_cached [0] 3 False = Inr [9/8]
         | _ \<Rightarrow> False)"
proof -
  define rd where "rd = delete_primitive poly_ops weights_ops two_ramps_store two_ramps_cached (- 2) False"
  define ra where "ra = add_primitive poly_ops weights_ops two_ramps_store two_ramps_cached 0 (1/10) False"
  define rs where "rs = add_primitive poly_ops weights_ops three_polys_store two_ramps_cached 2 (1/10) False"
  have wf: "refs_in_store two_ramps_cached two_ramps_store"
    by (simp add: refs_in_store_def two_ramps_cached_def two_ramps_store_def poly_store_def)
  have wf3: "refs_in_store two_ramps_cached three_polys_store"
    by (simp add: refs_in_store_def two_ramps_cached_def three_polys_store_def poly_store_def)
  have std: "\<not> has_bridge two_ramps_cached"
    by (simp add: two_ramps_cached_def)
  have inv: "norm_len weights_ops (norm_at two_ramps_store (norms two_ramps_cached))
      = length (primitives two_ramps_cached)"
    by (simp add: weights_ops_def two_ramps_cached_def two_ramps_store_def poly_store_def)
  have inv3: "norm_len weights_ops (norm_at three_polys_store (norms two_ramps_cached))
      = length (primitives two_ramps_cached)"
    by (simp add: weights_ops_def two_ramps_cached_def three_polys_store_def poly_store_def)
  have n2: "2 \<le> length (primitives two_ramps_cached)"
    by (simp add: two_ramps_cached_def)
  have i': "(0::int) = (if (- 2::int) < 0 then - 2 + int (length (primitives two_ramps_cached)) else - 2)"
    by (simp add: two_ramps_cached_def)
  have idx: "(0::int) \<le> 0" "0 < int (length (primitives two_ramps_cached))"
    by (simp_all add: two_ramps_cached_def)
  have del: "norm_delete_component weights_ops (norm_at two_ramps_store (norms two_ramps_cached)) 0
      = Inr [1/2]"
    by (simp add: weights_ops_def two_ramps_store_def poly_store_def)
  have del3: "norm_delete_component weights_ops (norm_at three_polys_store (norms two_ramps_cached)) 0
      = Inr [1/2]"
    by (simp add: weights_ops_def three_polys_store_def poly_store_def)
  have dlen: "norm_len weights_ops [1/2 :: real]
      = norm_len weights_ops (norm_at two_ramps_store (norms two_ramps_cached)) - 1"
    by (simp add: weights_ops_def two_ramps_store_def poly_store_def)
  have dlen3: "norm_len weights_ops [1/2 :: real]
      = norm_len weights_ops (norm_at three_polys_store (norms two_ramps_cached)) - 1"
    by (simp add: weights_ops_def three_polys_store_def poly_store_def)
  have add: "norm_add_component weights_ops (norm_at two_ramps_store (norms two_ramps_cached)) (1/10)
      = Inr [9/40, 9/20, 1/10]"
    by (simp add: weights_ops_def two_ramps_store_def poly_store_def)
  have add3: "norm_add_component weights_ops (norm_at three_polys_store (norms two_ramps_cached)) (1/10)
      = Inr [9/40, 9/20, 1/10]"
    by (simp add: weights_ops_def three_polys_store_def poly_store_def)
  have alen: "norm_len weights_ops [9/40, 9/20, 1/10 :: real]
      = Suc (norm_len weights_ops (norm_at two_ramps_store (norms two_ramps_cached)))"
    by (simp add: weights_ops_def two_ramps_store_def poly_store_def)
  have alen3: "norm_len weights_ops [9/40, 9/20, 1/10 :: real]
      = Suc (norm_len weights_ops (norm_at three_polys_store (norms two_ramps_cached)))"
    by (simp add: weights_ops_def three_polys_store_def poly_store_def)
  have ev: "call_direct poly_ops weights_ops two_ramps_store two_ramps_cached [0] 3 False = Inr [9/8]"
    by (simp add: call_direct_def get_scales_def LCTemplate_get_scales_def two_ramps_cached_def
        two_ramps_store_def poly_store_def weights_ops_def poly_ops_def add_arrays_def scaled_def
        prim_eval_def)
  have ev3: "call_direct poly_ops weights_ops three_polys_store two_ramps_cached [0] 3 False = Inr [9/8]"
    by (simp add: call_direct_def get_scales_def LCTemplate_get_scales_def two_ramps_cached_def
        three_polys_store_def poly_store_def weights_ops_def poly_ops_def add_arrays_def scaled_def
        prim_eval_def)
  have st: "prim_at two_ramps_store 0 = \<lparr>poly_slope = 1, poly_curv = 0, poly_loc = 1/4\<rparr>"
    "prim_at two_ramps_store 1 = \<lparr>poly_slope = - 1, poly_curv = 0, poly_loc = 3/4\<rparr>"
    "norm_at two_ramps_store 2 = [1/4, 1/2]" "next_ref two_ramps_store = 3"
    by (simp_all add: two_ramps_store_def poly_store_def)
  have sh: "(2::nat) \<notin> set (primitives two_ramps_cached)"
    by (simp add: two_ramps_cached_def)
  note main = structural_edits_copy [OF wf std inv n2 i' idx del dlen add alen, of poly_ops 0]
  note main3 = structural_edits_copy [OF wf3 std inv3 n2 i' idx del3 dlen3 add3 alen3, of poly_ops 2]
  from main obtain t h' where D:
    "delete_primitive poly_ops weights_ops two_ramps_store two_ramps_cached (- 2) False
       = (Inr (Some t), two_ramps_cached, h')"
    "store_extends two_ramps_store h'"
    "\<forall>phases e sb. call_direct poly_ops weights_ops h' two_ramps_cached phases e sb
             = call_direct poly_ops weights_ops two_ramps_store two_ramps_cached phases e sb"
    by blast
  from main obtain t2 h2 where A:
    "add_primitive poly_ops weights_ops two_ramps_store two_ramps_cached 0 (1/10) False
       = (Inr (Some t2), two_ramps_cached, h2)"
    "\<forall>phases e sb. call_direct poly_ops weights_ops h2 two_ramps_cached phases e sb
             = call_direct poly_ops weights_ops two_ramps_store two_ramps_cached phases e sb"
    by blast
  from main3 sh obtain t3 h3 where S:
    "add_primitive poly_ops weights_ops three_polys_store two_ramps_cached 2 (1/10) False
       = (Inr (Some t3), two_ramps_cached, h3)"
    "\<forall>p free phases e sb.
        call_direct poly_ops weights_ops
          (snd (snd (set_parameters poly_ops weights_ops h3 t3 p free))) two_ramps_cached phases e sb
        = call_direct poly_ops weights_ops three_polys_store two_ramps_cached phases e sb"
    by blast
  have L: "fst (snd rd) = two_ramps_cached
       \<and> prim_at (snd (snd rd)) 0 = \<lparr>poly_slope = 1, poly_curv = 0, poly_loc = 1/4\<rparr>
       \<and> prim_at (snd (snd rd)) 1 = \<lparr>poly_slope = - 1, poly_curv = 0, poly_loc = 3/4\<rparr>
       \<and> norm_at (snd (snd rd)) 2 = [1/4, 1/2]
       \<and> call_direct poly_ops weights_ops (snd (snd rd)) two_ramps_cached [0] 3 False = Inr [9/8]"
    using D(2) D(3) ev st unfolding rd_def D(1) by (simp add: store_extends_def)
  have R: "fst (snd ra) = two_ramps_cached
         \<and> call_direct poly_ops weights_ops (snd (snd ra)) two_ramps_cached [0] 3 False = Inr [9/8]"
    using A(2) ev unfolding ra_def A(1) by simp
  have T: "(case fst rs of
           Inr (Some t) \<Rightarrow>
             call_direct poly_ops weights_ops
               (snd (snd (set_parameters poly_ops weights_ops (snd (snd rs)) t
                            [2, 0, 1/2, 2, 0, 1/2, 2, 0, 1/2] True)))
               two_ramps_cached [0] 3 False = Inr [9/8]
         | _ \<Rightarrow> False)"
    unfolding rs_def S(1) using S(2) ev3 by simp
  show ?thesis
    unfolding Let_def rd_def [symmetric] ra_def [symmetric] rs_def [symmetric] using L R T by blast
qed

text \<open>
  Claim C10 as stated fails for a bridge template. The bridge template of two primitives
  has three weights; \<open>delete_component\<close> leaves two weights for the one retained primitive
  and \<open>add_component\<close> gives four weights for three primitives, and both methods build the
  new template with \<^verbatim>\<open>LCTemplate(...)\<close>, whose \<^verbatim>\<open>_sanity_checks\<close> wants as many weights as
  primitives and raises \<^verbatim>\<open>ValueError\<close>: no template is returned.
\<close>

theorem structural_edits_bridge_counterexample:
  "sanity_checks weights_ops bridge_store bridge_pair = Inr ()
   \<and> fst (delete_primitive poly_ops weights_ops bridge_store bridge_pair 0 False) = Inl ValueError
   \<and> fst (add_primitive poly_ops weights_ops bridge_store bridge_pair 0 (1/10) False)
       = Inl ValueError"
proof -
  have a: "sanity_checks weights_ops bridge_store bridge_pair = Inr ()"
    by (simp add: sanity_checks_def bridge_pair_def weights_ops_def bridge_store_def poly_store_def)
  have b: "fst (delete_primitive poly_ops weights_ops bridge_store bridge_pair 0 False)
      = Inl ValueError"
    by (simp add: delete_primitive_def bridge_pair_def Let_def enumerate_eq_zip upt_rec
        new_prim_def new_norm_def weights_ops_def bridge_store_def poly_store_def
        LCTemplate_init_def init_common_def sanity_checks_def split: prod.splits)
  have c: "fst (add_primitive poly_ops weights_ops bridge_store bridge_pair 0 (1/10) False)
      = Inl ValueError"
    by (simp add: add_primitive_def bridge_pair_def Let_def
        new_prim_def new_norm_def weights_ops_def bridge_store_def poly_store_def
        LCTemplate_init_def init_common_def sanity_checks_def split: prod.splits)
  from a b c show ?thesis by blast
qed

section \<open>Construction\<close>

lemma LCTemplate_init_default:
  assumes "NormAngles nops (replicate (length prims) (1 / real (length prims))) = Inr nm"
    and "norm_len nops nm = length prims"
  shows "LCTemplate_init pops nops h prims NormsNone =
     Inr (\<lparr>primitives = prims, norms = next_ref h,
           shift_mode = list_ex (\<lambda>p. prim_shift_mode pops (prim_at h p)) prims,
           cache = Map.empty, cache_dirty = Map.empty, ncache = 1000, interpolation = 1,
           has_bridge = False, p1p2 = None\<rparr>, snd (new_norm h nm))"
  using assms
  by (simp add: LCTemplate_init_def init_common_def sanity_checks_def set_cache_properties_def
      mark_cache_dirty_def new_norm_def)

lemma LCTemplate_init_count_mismatch:
  "length prims \<noteq> norm_len nops (norm_at h r) \<Longrightarrow>
   LCTemplate_init pops nops h prims (NormsObject r) = Inl ValueError"
  by (simp add: LCTemplate_init_def init_common_def sanity_checks_def)

lemma LCBridgeTemplate_init_default: "LCBridgeTemplate_init pops nops h prims NormsNone = Inl TypeError"
  by (simp add: LCBridgeTemplate_init_def)

text \<open>
  Claim C6 at a concrete input: constructing a bridge template from two primitives with
  the norms omitted raises \<open>TypeError\<close> (the default divides by \<open>len(primitives + 1)\<close>,
  a list plus an integer), where the claim has it succeed with three equal weights. With
  a NormMap of three weights given the construction succeeds, and the standard template
  with the norms omitted gets the uniform weights \<open>[1/2, 1/2]\<close>.
\<close>

theorem bridge_default_norms_raises:
  "LCBridgeTemplate_init poly_ops weights_ops bridge_store [0, 1] NormsNone = Inl TypeError
   \<and> LCBridgeTemplate_init poly_ops weights_ops bridge_store [0, 1] (NormsObject 2)
       = Inr (bridge_pair, bridge_store)
   \<and> (case LCTemplate_init poly_ops weights_ops two_ramps_store [0, 1] NormsNone of
         Inl e \<Rightarrow> False
       | Inr (t, h') \<Rightarrow> primitives t = [0, 1] \<and> norm_at h' (norms t) = [1/2, 1/2])"
proof -
  have "NormAngles weights_ops (replicate (length [0, 1 :: nat]) (1 / real (length [0, 1 :: nat])))
      = Inr [1/2, 1/2]"
    by (simp add: weights_ops_def numeral_2_eq_2)
  moreover have "norm_len weights_ops [1/2, 1/2 :: real] = length [0, 1 :: nat]"
    by (simp add: weights_ops_def)
  ultimately have "LCTemplate_init poly_ops weights_ops two_ramps_store [0, 1] NormsNone =
     Inr (\<lparr>primitives = [0, 1], norms = next_ref two_ramps_store,
           shift_mode = list_ex (\<lambda>p. prim_shift_mode poly_ops (prim_at two_ramps_store p)) [0, 1],
           cache = Map.empty, cache_dirty = Map.empty, ncache = 1000, interpolation = 1,
           has_bridge = False, p1p2 = None\<rparr>, snd (new_norm two_ramps_store [1/2, 1/2]))"
    by (rule LCTemplate_init_default)
  then have std: "(case LCTemplate_init poly_ops weights_ops two_ramps_store [0, 1] NormsNone of
         Inl e \<Rightarrow> False
       | Inr (t, h') \<Rightarrow> primitives t = [0, 1] \<and> norm_at h' (norms t) = [1/2, 1/2])"
    by (simp add: new_norm_def)
  show ?thesis
    using LCBridgeTemplate_init_default [of poly_ops weights_ops bridge_store "[0, 1]"]
      bridge_pair_init std
    by blast
qed

section \<open>The cache and NaN phases\<close>

lemma isnan_iff: "isnan x \<longleftrightarrow> x = NaN"
  by (cases x) (simp_all add: isnan_def)

lemma take_indices_error: "take_indices xs idx = Inl e \<Longrightarrow> e = IndexError"
  by (simp add: take_indices_def split: if_splits)

lemma nan_index_out_of_range:
  "int (length grid) < 2 ^ 63 \<Longrightarrow> \<not> in_range grid int64_min"
  by (simp add: in_range_def int64_min_def)

lemma nearest_lookup_no_nan:
  assumes "filter isnan phases = []"
  shows "nearest_lookup grid nc phases = (take_indices grid (map (nearest_index nc) phases), [])"
proof (cases "take_indices grid (map (nearest_index nc) phases)")
  case (Inl e)
  with assms show ?thesis by (simp add: nearest_lookup_def Let_def)
next
  case (Inr vals)
  then show ?thesis by (simp add: nearest_lookup_def Let_def)
qed

lemma remap_zip:
  "map (\<lambda>(i, ph). if isnan ph then 0 else i) (zip (map f phases) phases)
     = map (\<lambda>ph. if isnan ph then 0 else f ph) phases"
  by (induction phases) simp_all

lemma nearest_lookup_nan:
  assumes nan: "filter isnan phases \<noteq> []" and small: "int (length grid) < 2 ^ 63"
  shows "nearest_lookup grid nc phases =
     (take_indices grid (map (\<lambda>ph. if isnan ph then 0 else nearest_index nc ph) phases),
      [show_nat (length (filter isnan phases)) @ '' phases were NaN!''])"
proof -
  from nan obtain ph where ph: "ph \<in> set phases" "isnan ph"
    by (auto simp: filter_empty_conv)
  then have "ph = NaN" by (simp add: isnan_iff)
  then have "nearest_index nc ph = int64_min" by (simp add: nearest_index_def)
  with nan_index_out_of_range [OF small] have "\<not> in_range grid (nearest_index nc ph)"
    by simp
  with ph(1) have "\<not> list_all (in_range grid) (map (nearest_index nc) phases)"
    by (auto simp: list_all_iff)
  then have first: "take_indices grid (map (nearest_index nc) phases) = Inl IndexError"
    by (simp add: take_indices_def)
  from nan have pos: "0 < length (filter isnan phases)" by simp
  show ?thesis
    by (simp add: nearest_lookup_def Let_def first pos remap_zip del: length_greater_0_conv)
qed

text \<open>
  Claim C8, as amended. Let \<open>get_cache\<close> return the grid (of fewer than \<open>2\<^sup>6\<^sup>3\<close> entries)
  and let the interpolation be nearest-point. If no phase is NaN, \<open>eval_cache\<close> returns
  the grid values at the indices, and raises \<open>IndexError\<close>, printing nothing, when one
  index is out of range. If some phase is NaN, the first lookup raises \<open>IndexError\<close>, which
  is caught; the line with the NaN count is printed, the indices of the NaN phases become
  0, and the lookup is retried: it returns the grid values (\<open>grid[0]\<close> for a NaN phase)
  when the grid is not empty and every other phase has an index in range, and raises
  \<open>IndexError\<close> when another index is out of range.
\<close>

theorem eval_cache_nearest:
  assumes gc: "get_cache pops nops h self order = (Inr grid, self')"
    and i0: "interpolation self = 0"
    and small: "int (length grid) < 2 ^ 63"
  shows "eval_cache pops nops h self phases order =
     (if filter isnan phases = []
      then (take_indices grid (map (nearest_index (ncache self)) phases), [], self')
      else (take_indices grid
              (map (\<lambda>ph. if isnan ph then 0 else nearest_index (ncache self) ph) phases),
            [show_nat (length (filter isnan phases)) @ '' phases were NaN!''], self'))
   \<and> (filter isnan phases \<noteq> [] \<and> grid \<noteq> []
        \<and> list_all (\<lambda>ph. isnan ph \<or> in_range grid (nearest_index (ncache self) ph)) phases
        \<longrightarrow> eval_cache pops nops h self phases order =
            (Inr (map (\<lambda>ph. if isnan ph then grid ! 0
                             else at_index grid (nearest_index (ncache self) ph)) phases),
             [show_nat (length (filter isnan phases)) @ '' phases were NaN!''], self'))
   \<and> (filter isnan phases = []
        \<and> \<not> list_all (\<lambda>ph. in_range grid (nearest_index (ncache self) ph)) phases
        \<longrightarrow> eval_cache pops nops h self phases order = (Inl IndexError, [], self'))
   \<and> (filter isnan phases \<noteq> []
        \<and> \<not> list_all (\<lambda>ph. isnan ph \<or> in_range grid (nearest_index (ncache self) ph)) phases
        \<longrightarrow> eval_cache pops nops h self phases order =
            (Inl IndexError, [show_nat (length (filter isnan phases)) @ '' phases were NaN!''],
             self'))"
proof -
  let ?idx = "nearest_index (ncache self)"
  let ?re = "\<lambda>ph. if isnan ph then 0 else ?idx ph"
  let ?diag = "[show_nat (length (filter isnan phases)) @ '' phases were NaN!'']"
  have ev: "eval_cache pops nops h self phases order =
      (fst (nearest_lookup grid (ncache self) phases),
       snd (nearest_lookup grid (ncache self) phases), self')"
    by (simp add: eval_cache_def gc i0 case_prod_beta)
  have A: "eval_cache pops nops h self phases order =
     (if filter isnan phases = []
      then (take_indices grid (map ?idx phases), [], self')
      else (take_indices grid (map ?re phases), ?diag, self'))"
    by (simp add: ev nearest_lookup_no_nan nearest_lookup_nan [OF _ small])
  have B: "take_indices grid (map ?re phases) =
        Inr (map (\<lambda>ph. if isnan ph then grid ! 0 else at_index grid (?idx ph)) phases)"
    if "grid \<noteq> []" "list_all (\<lambda>ph. isnan ph \<or> in_range grid (?idx ph)) phases"
  proof -
    from that(1) have z: "in_range grid 0" "at_index grid 0 = grid ! 0"
      by (simp_all add: in_range_def at_index_def)
    from that(2) z(1) have "list_all (in_range grid) (map ?re phases)"
      by (auto simp: list_all_iff)
    then show ?thesis
      by (simp add: take_indices_def z(2) comp_def if_distrib [of "at_index grid"])
  qed
  have C: "take_indices grid (map ?idx phases) = Inl IndexError"
    if "\<not> list_all (\<lambda>ph. in_range grid (?idx ph)) phases"
    using that by (simp add: take_indices_def list_all_iff)
  have D: "take_indices grid (map ?re phases) = Inl IndexError"
    if "\<not> list_all (\<lambda>ph. isnan ph \<or> in_range grid (?idx ph)) phases"
  proof -
    from that have "\<not> list_all (in_range grid) (map ?re phases)"
      by (auto simp: list_all_iff)
    then show ?thesis by (simp add: take_indices_def)
  qed
  from A B C D show ?thesis by auto
qed

lemma two_ramps_nearest_get_cache:
  "get_cache poly_ops weights_ops two_ramps_store two_ramps_nearest 0
     = (Inr [9/8, 1, 7/8], two_ramps_nearest)"
  by (simp add: get_cache_def read_dirty_def is_dirty_def two_ramps_nearest_def
      two_ramps_cached_def)

lemma show_nat_digit: "n < 10 \<Longrightarrow> show_nat n = [char_of (48 + n)]"
  by (simp add: show_nat.simps)

theorem eval_cache_nearest_witness:
  "eval_cache poly_ops weights_ops two_ramps_store two_ramps_nearest [NaN, Fin (1/2), NaN] 0
     = (Inr [9/8, 1, 9/8], [''2 phases were NaN!''], two_ramps_nearest)
   \<and> eval_cache poly_ops weights_ops two_ramps_store two_ramps_nearest [Fin (1/2), Fin 2] 0
     = (Inl IndexError, [], two_ramps_nearest)"
proof -
  have i0: "interpolation two_ramps_nearest = 0" and nc: "ncache two_ramps_nearest = 2"
    by (simp_all add: two_ramps_nearest_def two_ramps_cached_def)
  have small: "int (length [9/8, 1, 7/8 :: real]) < 2 ^ 63" by simp
  note th = eval_cache_nearest [OF two_ramps_nearest_get_cache i0 small]
  have idx: "nearest_index 2 (Fin (1/2)) = 1" "nearest_index 2 (Fin 2) = 4"
    by (simp_all add: nearest_index_def float_to_int_def int64_min_def)
  have d: "show_nat (Suc (Suc 0)) = ''2''" by code_simp
  have n1: "filter isnan [NaN, Fin (1/2), NaN] = [NaN, NaN]"
    and n2: "filter isnan [Fin (1/2), Fin 2] = []"
    by (simp_all add: isnan_def)
  have A: "eval_cache poly_ops weights_ops two_ramps_store two_ramps_nearest [NaN, Fin (1/2), NaN] 0
     = (Inr [9/8, 1, 9/8], [''2 phases were NaN!''], two_ramps_nearest)"
    using th [of "[NaN, Fin (1/2), NaN]"]
    by (simp add: n1 nc idx d isnan_def take_indices_def in_range_def at_index_def)
  have B: "eval_cache poly_ops weights_ops two_ramps_store two_ramps_nearest [Fin (1/2), Fin 2] 0
     = (Inl IndexError, [], two_ramps_nearest)"
    using th [of "[Fin (1/2), Fin 2]"]
    by (simp add: n2 nc idx isnan_def take_indices_def in_range_def)
  from A B show ?thesis ..
qed

text \<open>
  Claim C8 as stated fails: a phase array that contains NaN can raise. For the phases
  \<open>[nan, 2.0]\<close> and \<open>ncache = 2\<close> the indices are \<open>[int64_min, 4]\<close>; the NaN count is
  printed, the retry looks up \<open>[0, 4]\<close> in a grid of three entries, outside the \<open>try\<close>,
  and raises \<open>IndexError\<close>.
\<close>

theorem eval_cache_nan_counterexample:
  "eval_cache poly_ops weights_ops two_ramps_store two_ramps_nearest [NaN, Fin 2] 0
     = (Inl IndexError, [''1 phases were NaN!''], two_ramps_nearest)"
proof -
  have idx: "nearest_index 2 (Fin 2) = 4" "nearest_index 2 NaN = int64_min"
    by (simp_all add: nearest_index_def float_to_int_def int64_min_def)
  have d: "show_nat (Suc 0) = ''1''" by code_simp
  have nl: "nearest_lookup [9/8, 1, 7/8] 2 [NaN, Fin 2]
      = (Inl IndexError, [''1 phases were NaN!''])"
    by (simp add: nearest_lookup_def idx take_indices_def in_range_def int64_min_def isnan_def d)
  show ?thesis
    by (simp add: eval_cache_def two_ramps_nearest_get_cache nl)
       (simp add: two_ramps_nearest_def two_ramps_cached_def nl)
qed

section \<open>The random sampler\<close>

subsection \<open>The scan from the highest index down\<close>


lemma first_above_end [simp]: "first_above q t k k = k"
  by (simp add: first_above_def)







subsection \<open>The cumulative partition probabilities\<close>

lemma length_add_arrays [simp]: "length (add_arrays a b) = min (length a) (length b)"
  by (simp add: add_arrays_def)


lemma length_cumsum_from [simp]: "length (cumsum_from acc rows) = length rows"
  by (induction rows arbitrary: acc) simp_all





lemma norms_matrix_length [simp]:
  "length (norms_matrix nops nm ens) = norm_len nops nm"
  by (simp add: norms_matrix_def)


lemma sum_axis0_length [simp]: "length (sum_axis0 rows n) = n"
  by (simp add: sum_axis0_def)



subsection \<open>The phases of the primitives\<close>

lemma length_scatter [simp]: "length (scatter as m vs) = length as"
  by (induction as m vs rule: scatter.induct) simp_all





subsection \<open>The whole call\<close>















end
